theory Spec2Isabelle
  imports Main "HOL-Library.Sublist"
begin

text \<open>
  A model of \<^verbatim>\<open>scripts/fix-waybar-vpn.py\<close>, the script that patches the waybar
  configuration for a VPN toggle: the JSONC normalizer (comment scanner and removal of
  trailing commas), the three patch operations on an explicit file system, and the run
  that chains them. The definitions follow the source function by function; the theorems
  settle the claims \<open>C1\<close> to \<open>C10\<close> of the specification.
\<close>

section \<open>Text\<close>

text \<open>
  The script \<^verbatim>\<open>scripts/fix-waybar-vpn.py\<close> works on Python \<^verbatim>\<open>str\<close> values:
  sequences of Unicode code points. A text is modelled as the list of its code points,
  each a natural number, because the script's own constants (the two icon glyphs
  U+F033E and U+F0FC6) lie outside the range of an 8-bit character. \<open>str ''...''\<close>
  writes an ASCII literal as such a list.
\<close>

type_synonym pystr = "nat list"

abbreviation str :: "string \<Rightarrow> pystr" where
  "str s \<equiv> map of_char s"

section \<open>Errors\<close>

text \<open>
  Every way the script can stop early is a value of \<open>error\<close>. The script names none of
  them; the names are those of the specification's taxonomy where it has one:
  \<^item> \<open>MissingFileError\<close>: \<^verbatim>\<open>os.path.exists\<close> fails, the script prints \<^verbatim>\<open>ERROR: ... not found\<close>
    and calls \<^verbatim>\<open>sys.exit(1)\<close>;
  \<^item> \<open>MalformedConfigError\<close>: \<^verbatim>\<open>json.loads\<close> raises \<^verbatim>\<open>JSONDecodeError\<close>, which nothing catches;
  \<^item> \<open>MissingFieldError\<close>: \<^verbatim>\<open>'modules-right' not found in config\<close>, \<^verbatim>\<open>sys.exit(1)\<close>;
  \<^item> \<open>AnchorNotFoundError\<close>: \<^verbatim>\<open>Could not find modules-right array in config\<close> or
    \<^verbatim>\<open>Could not find closing brace in config\<close>, \<^verbatim>\<open>sys.exit(1)\<close>;
  \<^item> \<open>IndexError\<close>, \<open>TypeError\<close>, \<open>AttributeError\<close>, \<open>IsADirectoryError\<close>,
    \<open>FileNotFoundError\<close>, \<open>SameFileError\<close>: the Python exceptions of an index out of range,
    of \<^verbatim>\<open>in\<close> on a value that is no container, of \<^verbatim>\<open>.get\<close> on a value that is no dict, of
    opening a directory, of a path that does not exist (\<^verbatim>\<open>os.makedirs('')\<close>), and of
    \<^verbatim>\<open>shutil\<close> asked to copy a file onto itself; none is caught, so each ends the process
    with a traceback and a non-zero status.
\<close>

datatype error = IndexError | MissingFileError | MalformedConfigError | MissingFieldError
  | AnchorNotFoundError | TypeError | AttributeError | IsADirectoryError
  | FileNotFoundError | SameFileError

section \<open>The comment scanner \<^verbatim>\<open>strip_jsonc_comments\<close>\<close>

text \<open>
  \<open>char_at content i\<close> is \<^verbatim>\<open>content[i]\<close>, which raises \<^verbatim>\<open>IndexError\<close> out of range;
  \<open>slice content i j\<close> is \<^verbatim>\<open>content[i:j]\<close> for \<open>0 \<le> i\<close>, which never raises and is
  cut at the end of the text.
\<close>

definition char_at :: "pystr \<Rightarrow> nat \<Rightarrow> error + nat" where
  "char_at content i = (if i < length content then Inr (content ! i) else Inl IndexError)"

definition slice :: "pystr \<Rightarrow> nat \<Rightarrow> nat \<Rightarrow> pystr" where
  "slice content i j = take (j - i) (drop i content)"

text \<open>
  The two inner loops, on the index \<open>i\<close> as in the source.
  \<^verbatim>\<open>while i < len(content) and content[i] != '\n': i += 1\<close> returns the new index;
  \<^verbatim>\<open>while i < len(content) - 1 and content[i:i+2] != '*/': i += 1\<close> likewise (the
  subtraction is Python's, on integers).
\<close>

function skip_line :: "pystr \<Rightarrow> nat \<Rightarrow> error + nat" where
  "skip_line content i =
     (if i < length content then
        (case char_at content i of
           Inl e \<Rightarrow> Inl e
         | Inr c \<Rightarrow> if c \<noteq> 10 then skip_line content (i + 1) else Inr i)
      else Inr i)"
  by pat_completeness auto
termination
  by (relation "measure (\<lambda>(content, i). length content - i)") auto

function skip_block :: "pystr \<Rightarrow> nat \<Rightarrow> nat" where
  "skip_block content i =
     (if int i < int (length content) - 1 \<and> slice content i (i + 2) \<noteq> str ''*/''
      then skip_block content (i + 1) else i)"
  by pat_completeness auto
termination
  by (relation "measure (\<lambda>(content, i). length content - i)") auto

declare skip_line.simps [simp del] skip_block.simps [simp del]

lemma skip_line_ge: "skip_line content i = Inr j \<Longrightarrow> i \<le> j"
proof (induction content i rule: skip_line.induct)
  case (1 content i)
  then show ?case
    by (subst (asm) (2) skip_line.simps) (auto simp: char_at_def split: if_splits)
qed

lemma skip_line_gt:
  "slice content i (i + 2) = str ''//'' \<Longrightarrow> skip_line content i = Inr j \<Longrightarrow> i < j"
proof -
  assume a: "slice content i (i + 2) = str ''//''" and b: "skip_line content i = Inr j"
  from a have l: "i < length content"
    by (cases "i < length content") (auto simp: slice_def)
  from a l have c: "content ! i = 47"
    by (simp add: slice_def hd_drop_conv_nth [symmetric] take_Suc numeral_2_eq_2 split: list.splits)
  from b l c have "skip_line content (i + 1) = Inr j"
    by (subst (asm) skip_line.simps) (simp add: char_at_def)
  then show ?thesis using skip_line_ge by fastforce
qed

lemma skip_block_ge: "i \<le> skip_block content i"
proof (induction content i rule: skip_block.induct)
  case (1 content i)
  then show ?case
    by (subst skip_block.simps) (auto split: if_splits)
qed

text \<open>
  The main loop. Its state is the index \<open>i\<close>, the two flags and the list \<open>result\<close>;
  \<^verbatim>\<open>result.append(char)\<close> is \<open>result @ [char]\<close>, and \<^verbatim>\<open>''.join(result)\<close> is \<open>result\<close>
  itself. The branches are in the order of the source. The recursion terminates because
  every branch moves the index forward: the line-comment loop starts on a \<^verbatim>\<open>/\<close>, which is
  no newline, and the block-comment branch adds \<open>2\<close> twice.
\<close>

function strip_loop :: "pystr \<Rightarrow> nat \<Rightarrow> bool \<Rightarrow> bool \<Rightarrow> pystr \<Rightarrow> error + pystr" where
  "strip_loop content i in_string escape_next result =
     (if i < length content then
        (case char_at content i of
           Inl e \<Rightarrow> Inl e
         | Inr char \<Rightarrow>
             if escape_next then
               strip_loop content (i + 1) in_string False (result @ [char])
             else if char = 92 \<and> in_string then
               strip_loop content (i + 1) in_string True (result @ [char])
             else if char = 34 \<and> \<not> escape_next then
               strip_loop content (i + 1) (\<not> in_string) escape_next (result @ [char])
             else if in_string then
               strip_loop content (i + 1) in_string escape_next (result @ [char])
             else if slice content i (i + 2) = str ''//'' then
               (case skip_line content i of
                  Inl e \<Rightarrow> Inl e
                | Inr j \<Rightarrow> strip_loop content j in_string escape_next result)
             else if slice content i (i + 2) = str ''/*'' then
               strip_loop content (skip_block content (i + 2) + 2) in_string escape_next result
             else
               strip_loop content (i + 1) in_string escape_next (result @ [char]))
      else Inr result)"
  by pat_completeness auto
termination
proof (relation "measure (\<lambda>(content, i, in_string, escape_next, result). length content - i)",
    goal_cases)
  case (6 content i in_string escape_next result char j)
  then show ?case using skip_line_gt [of content i j] by simp
next
  case (7 content i in_string escape_next result char)
  then show ?case using skip_block_ge [of "i + 2" content] by simp
qed auto

declare strip_loop.simps [simp del]

definition strip_jsonc_comments :: "pystr \<Rightarrow> error + pystr" where
  "strip_jsonc_comments content = strip_loop content 0 False False []"

subsection \<open>The scanner as a function of the remaining text\<close>

text \<open>
  For the proofs the loop is also described by what it emits from the text that is left,
  \<open>drop i content\<close>: \<open>drop_line\<close> and \<open>drop_block\<close> are the two inner loops (the second
  with the final \<^verbatim>\<open>i += 2\<close>), \<open>strip_from\<close> the main loop. \<open>strip_loop_strip_from\<close>
  proves that the loop on indices computes exactly this, and in particular never raises.
\<close>

fun drop_line :: "pystr \<Rightarrow> pystr" where
  "drop_line [] = []"
| "drop_line (c # cs) = (if c \<noteq> 10 then drop_line cs else c # cs)"

fun drop_block :: "pystr \<Rightarrow> pystr" where
  "drop_block (a # b # cs) = (if [a, b] \<noteq> str ''*/'' then drop_block (b # cs) else cs)"
| "drop_block cs = []"

lemma length_drop_line: "length (drop_line cs) \<le> length cs"
  by (induction cs) auto

lemma length_drop_block: "length (drop_block cs) \<le> length cs"
  by (induction cs rule: drop_block.induct) auto

function strip_from :: "bool \<Rightarrow> bool \<Rightarrow> pystr \<Rightarrow> pystr" where
  "strip_from s e [] = []"
| "strip_from s e (c # cs) =
     (if e then c # strip_from s False cs
      else if c = 92 \<and> s then c # strip_from s True cs
      else if c = 34 then c # strip_from (\<not> s) False cs
      else if s then c # strip_from s False cs
      else if c # take 1 cs = str ''//'' then strip_from False False (drop_line cs)
      else if c # take 1 cs = str ''/*'' then strip_from False False (drop_block (drop 1 cs))
      else c # strip_from False False cs)"
  by pat_completeness auto
termination
proof (relation "measure (\<lambda>(s, e, cs). length cs)", goal_cases)
  case (6 s e c cs)
  then show ?case using length_drop_line [of cs] by simp
next
  case (7 s e c cs)
  then show ?case using length_drop_block [of "drop 1 cs"] by simp
qed auto

declare strip_from.simps(2) [simp del]

lemma skip_line_drop:
  "i \<le> length content \<Longrightarrow>
   \<exists>j. skip_line content i = Inr j \<and> j \<le> length content \<and> drop j content = drop_line (drop i content)"
proof (induction content i rule: skip_line.induct)
  case (1 content i)
  show ?case
  proof (cases "i < length content")
    case True
    then have d: "drop i content = content ! i # drop (i + 1) content"
      by (simp add: Cons_nth_drop_Suc)
    show ?thesis
    proof (cases "content ! i = 10")
      case True
      with \<open>i < length content\<close> d show ?thesis
        by (subst skip_line.simps) (simp add: char_at_def)
    next
      case False
      with \<open>i < length content\<close> have "\<exists>j. skip_line content (i + 1) = Inr j \<and> j \<le> length content
          \<and> drop j content = drop_line (drop (i + 1) content)"
        using "1.IH" [of "content ! i"] by (simp add: char_at_def)
      with False \<open>i < length content\<close> d show ?thesis
        by (subst skip_line.simps) (simp add: char_at_def)
    qed
  next
    case False
    with "1.prems" show ?thesis
      by (subst skip_line.simps) simp
  qed
qed

lemma skip_block_drop:
  "drop (skip_block content i + 2) content = drop_block (drop i content)"
proof (induction content i rule: skip_block.induct)
  case (1 content i)
  show ?case
  proof (cases "i + 1 < length content")
    case True
    then have d: "drop i content = content ! i # content ! (i + 1) # drop (i + 2) content"
      by (metis Cons_nth_drop_Suc Suc_eq_plus1 Suc_lessD add_2_eq_Suc')
    then have sl: "slice content i (i + 2) = [content ! i, content ! (i + 1)]"
      by (simp add: slice_def)
    show ?thesis
    proof (cases "[content ! i, content ! (i + 1)] = str ''*/''")
      case True
      with \<open>i + 1 < length content\<close> d sl show ?thesis
        by (subst skip_block.simps) simp
    next
      case False
      with True sl have "drop (skip_block content (i + 1) + 2) content = drop_block (drop (i + 1) content)"
        using "1.IH" by auto
      with False \<open>i + 1 < length content\<close> d sl show ?thesis
        apply (subst skip_block.simps) apply simp
        by (metis Cons_nth_drop_Suc Suc_eq_plus1 add_2_eq_Suc')
    qed
  next
    case False
    then have "drop_block (drop i content) = []"
      by (cases "drop i content" rule: drop_block.cases) (auto dest!: arg_cong [where f = length])
    moreover from False have "skip_block content i = i"
      by (subst skip_block.simps) auto
    ultimately show ?thesis using False by simp
  qed
qed

lemma strip_loop_strip_from:
  "strip_loop content i s e acc = Inr (acc @ strip_from s e (drop i content))"
proof (induction content i s e acc rule: strip_loop.induct)
  case (1 content i s e acc)
  show ?case
  proof (cases "i < length content")
    case False
    then show ?thesis by (subst strip_loop.simps) simp
  next
    case True
    then have d: "drop i content = content ! i # drop (i + 1) content"
      by (simp add: Cons_nth_drop_Suc)
    have sl: "slice content i (i + 2) = content ! i # take 1 (drop (i + 1) content)"
      using d by (simp add: slice_def numeral_2_eq_2)
    have ca: "char_at content i = Inr (content ! i)"
      using True by (simp add: char_at_def)
    note IH = "1.IH" [OF True ca]
    consider (a) e | (b) "\<not> e" "content ! i = 92 \<and> s" | (c) "\<not> e" "\<not> (content ! i = 92 \<and> s)" "content ! i = 34"
      | (d) "\<not> e" "\<not> (content ! i = 92 \<and> s)" "content ! i \<noteq> 34" s
      | (f) "\<not> e" "content ! i \<noteq> 34" "\<not> s" "slice content i (i + 2) = str ''//''"
      | (g) "\<not> e" "content ! i \<noteq> 34" "\<not> s" "slice content i (i + 2) \<noteq> str ''//''" "slice content i (i + 2) = str ''/*''"
      | (h) "\<not> e" "content ! i \<noteq> 34" "\<not> s" "slice content i (i + 2) \<noteq> str ''//''" "slice content i (i + 2) \<noteq> str ''/*''"
      by blast
    then show ?thesis
    proof cases
      case a
      with True ca d IH(1) show ?thesis
        by (subst strip_loop.simps) (simp add: strip_from.simps(2))
    next
      case b
      with True ca d IH(2) show ?thesis
        by (subst strip_loop.simps) (simp add: strip_from.simps(2))
    next
      case c
      with True ca d IH(3) show ?thesis
        by (subst strip_loop.simps) (simp add: strip_from.simps(2))
    next
      case d
      with True ca \<open>drop i content = _\<close> IH(4) show ?thesis
        by (subst strip_loop.simps) (auto simp add: strip_from.simps(2))
    next
      case f
      obtain j where j: "skip_line content i = Inr j" "drop j content = drop_line (drop i content)"
        using skip_line_drop [of i content] True by auto
      from f sl have c47: "content ! i = 47" by simp
      with d have dl: "drop_line (drop i content) = drop_line (drop (i + 1) content)" by simp
      from f True ca j IH(5) [of j] have "strip_loop content j s e acc = Inr (acc @ strip_from s e (drop j content))"
        by simp
      with f True ca d j dl sl show ?thesis
        by (subst strip_loop.simps) (simp add: strip_from.simps(2))
    next
      case g
      from g True ca IH(6) have "strip_loop content (skip_block content (i + 2) + 2) s e acc
          = Inr (acc @ strip_from s e (drop (skip_block content (i + 2) + 2) content))"
        by simp
      moreover have "drop (i + 2) content = drop 1 (drop (i + 1) content)" by simp
      ultimately show ?thesis using g True ca d sl skip_block_drop [of content "i + 2"]
        by (subst strip_loop.simps) (simp add: strip_from.simps(2))
    next
      case h
      with True ca d sl IH(7) show ?thesis
        by (subst strip_loop.simps) (auto simp add: strip_from.simps(2))
    qed
  qed
qed

section \<open>Trailing commas: \<^verbatim>\<open>remove_trailing_commas\<close>\<close>

text \<open>
  \<^verbatim>\<open>re.sub(r',(\s*[}\]])', r'\1', content)\<close>. \<open>is_space\<close> is the class \<^verbatim>\<open>\s\<close> of a
  \<^verbatim>\<open>str\<close> pattern: the code points for which \<^verbatim>\<open>str.isspace\<close> holds.
  \<open>match_trailing_comma s\<close> tries the pattern at the start of \<open>s\<close> and returns the text of
  group 1 and the text after the match. The greedy \<^verbatim>\<open>\s*\<close> takes the longest run of
  white space; giving some of it back never helps, since the character that would then
  have to be a bracket is white space. \<open>remove_trailing_commas\<close> is the substitution:
  matches are looked for from left to right, a match is replaced by its group 1 and the
  search goes on after it, any other character is copied.
\<close>

definition is_space :: "nat \<Rightarrow> bool" where
  "is_space c \<longleftrightarrow>
     c \<in> set [9, 10, 11, 12, 13, 28, 29, 30, 31, 32, 133, 160, 5760, 8232, 8233, 8239, 8287, 12288]
     \<or> (8192 \<le> c \<and> c \<le> 8202)"

definition match_trailing_comma :: "pystr \<Rightarrow> (pystr \<times> pystr) option" where
  "match_trailing_comma s =
     (case s of
        [] \<Rightarrow> None
      | c # cs \<Rightarrow>
          if c = 44 then
            (case dropWhile is_space cs of
               [] \<Rightarrow> None
             | d # rest \<Rightarrow>
                 if d = 125 \<or> d = 93 then Some (takeWhile is_space cs @ [d], rest) else None)
          else None)"

lemma match_trailing_comma_shape:
  "match_trailing_comma s = Some (g, rest) \<Longrightarrow> s = 44 # g @ rest"
  unfolding match_trailing_comma_def
  by (auto split: list.splits if_splits)
     (metis takeWhile_dropWhile_id)+

lemma match_trailing_comma_shorter:
  "match_trailing_comma s = Some (g, rest) \<Longrightarrow> length rest < length s"
  by (drule match_trailing_comma_shape) simp

function remove_trailing_commas :: "pystr \<Rightarrow> pystr" where
  "remove_trailing_commas [] = []"
| "remove_trailing_commas (c # cs) =
     (case match_trailing_comma (c # cs) of
        Some (g1, rest) \<Rightarrow> g1 @ remove_trailing_commas rest
      | None \<Rightarrow> c # remove_trailing_commas cs)"
  by pat_completeness auto
termination
  by (relation "measure length") (auto dest: match_trailing_comma_shorter)

declare remove_trailing_commas.simps(2) [simp del]

definition normalize :: "pystr \<Rightarrow> error + pystr" where
  "normalize content =
     (case strip_jsonc_comments content of
        Inl e \<Rightarrow> Inl e
      | Inr stripped \<Rightarrow> Inr (remove_trailing_commas stripped))"

section \<open>The JSON decoder \<^verbatim>\<open>json.loads\<close>\<close>

text \<open>
  \<^verbatim>\<open>json.loads\<close> belongs to Python's standard library, not to the script. It is modelled
  after the library's scanner, because the script decides everything on the decoded value:
  \<^item> white space between tokens is space, tab, line feed and carriage return;
  \<^item> a string may not hold a raw control character, its escapes are \<^verbatim>\<open>\" \\ \/ \b \f \n \r \t\<close>
    and \<^verbatim>\<open>\uXXXX\<close>, and a high surrogate followed by an escaped low surrogate is one code point;
  \<^item> a number is \<^verbatim>\<open>-?(0|[1-9][0-9]*)(\.[0-9]+)?([eE][-+]?[0-9]+)?\<close>, and \<^verbatim>\<open>NaN\<close>, \<^verbatim>\<open>Infinity\<close>,
    \<^verbatim>\<open>-Infinity\<close> are accepted; a number is kept as its lexeme, since the script never
    computes with one;
  \<^item> an object is kept as the list of its members in the order of the text; Python builds a
    \<^verbatim>\<open>dict\<close> from them, in which the last of several equal keys wins (see \<open>dict_get\<close>);
  \<^item> text after the value, other than white space, is an error.
  Each call of \<open>scan_once\<close>, \<open>JSONObject\<close> and \<open>JSONArray\<close> takes one unit of fuel and
  happens after at least one character was consumed, so the fuel \<open>2 * length s + 2\<close> that
  \<open>json_loads\<close> gives is never the reason of a failure. Every failure is the uncaught
  \<^verbatim>\<open>JSONDecodeError\<close>, here \<open>MalformedConfigError\<close>.
\<close>

datatype json = JNull | JBool bool | JNumber pystr | JString pystr
  | JArray "json list" | JObject "(pystr \<times> json) list"

definition is_json_ws :: "nat \<Rightarrow> bool" where
  "is_json_ws c \<longleftrightarrow> c = 32 \<or> c = 9 \<or> c = 10 \<or> c = 13"

definition skip_ws :: "pystr \<Rightarrow> pystr" where
  "skip_ws s = dropWhile is_json_ws s"

definition is_digit :: "nat \<Rightarrow> bool" where
  "is_digit c \<longleftrightarrow> 48 \<le> c \<and> c \<le> 57"

definition hex_digit :: "nat \<Rightarrow> nat option" where
  "hex_digit c =
     (if 48 \<le> c \<and> c \<le> 57 then Some (c - 48)
      else if 97 \<le> c \<and> c \<le> 102 then Some (c - 87)
      else if 65 \<le> c \<and> c \<le> 70 then Some (c - 55)
      else None)"

definition hex4 :: "nat \<Rightarrow> nat \<Rightarrow> nat \<Rightarrow> nat \<Rightarrow> nat option" where
  "hex4 a b c d =
     (case (hex_digit a, hex_digit b, hex_digit c, hex_digit d) of
        (Some x, Some y, Some z, Some w) \<Rightarrow> Some (((x * 16 + y) * 16 + z) * 16 + w)
      | _ \<Rightarrow> None)"

definition backslash :: "nat \<Rightarrow> nat option" where
  "backslash e =
     (if e = 34 then Some 34 else if e = 92 then Some 92 else if e = 47 then Some 47
      else if e = 98 then Some 8 else if e = 102 then Some 12 else if e = 110 then Some 10
      else if e = 114 then Some 13 else if e = 116 then Some 9 else None)"

definition surrogate_pair :: "nat \<Rightarrow> pystr \<Rightarrow> (nat \<times> pystr) option" where
  "surrogate_pair u r1 =
     (if 55296 \<le> u \<and> u \<le> 56319 then
        (case r1 of
           b1 # b2 # a2 # b2' # c2 # d2 # r2 \<Rightarrow>
             if b1 = 92 \<and> b2 = 117 then
               (case hex4 a2 b2' c2 d2 of
                  None \<Rightarrow> None
                | Some u2 \<Rightarrow>
                    if 56320 \<le> u2 \<and> u2 \<le> 57343
                    then Some (65536 + ((u - 55296) * 1024 + (u2 - 56320)), r2)
                    else None)
             else None
         | _ \<Rightarrow> None)
      else None)"

definition decode_escape :: "pystr \<Rightarrow> (nat \<times> pystr) option" where
  "decode_escape cs =
     (case cs of
        [] \<Rightarrow> None
      | e # r \<Rightarrow>
          if e = 117 then
            (case r of
               a # b # c # d # r1 \<Rightarrow>
                 (case hex4 a b c d of
                    None \<Rightarrow> None
                  | Some u \<Rightarrow>
                      (case surrogate_pair u r1 of
                         Some (u', r2) \<Rightarrow> Some (u', r2)
                       | None \<Rightarrow> Some (u, r1)))
             | _ \<Rightarrow> None)
          else
            (case backslash e of
               None \<Rightarrow> None
             | Some x \<Rightarrow> Some (x, r)))"

lemma surrogate_pair_shorter: "surrogate_pair u r1 = Some (x, r) \<Longrightarrow> length r < length r1"
  by (auto simp: surrogate_pair_def split: if_splits list.splits option.splits)

lemma decode_escape_shorter: "decode_escape cs = Some (x, r) \<Longrightarrow> length r < length cs"
  by (auto simp: decode_escape_def split: if_splits list.splits option.splits
      dest: surrogate_pair_shorter)

function scanstring :: "pystr \<Rightarrow> (pystr \<times> pystr) option" where
  "scanstring [] = None"
| "scanstring (c # cs) =
     (if c = 34 then Some ([], cs)
      else if c = 92 then
        (case decode_escape cs of
           None \<Rightarrow> None
         | Some (x, r) \<Rightarrow> map_option (\<lambda>(t, rest). (x # t, rest)) (scanstring r))
      else if c < 32 then None
      else map_option (\<lambda>(t, rest). (c # t, rest)) (scanstring cs))"
  by pat_completeness auto
termination
  by (relation "measure length") (auto dest: decode_escape_shorter)

lemma scanstring_shorter: "scanstring cs = Some (t, rest) \<Longrightarrow> length rest < length cs"
proof (induction cs arbitrary: t rule: scanstring.induct)
  case 1
  then show ?case by simp
next
  case (2 c cs)
  then show ?case
    by (fastforce split: if_splits option.splits dest: decode_escape_shorter)
qed

definition match_number :: "pystr \<Rightarrow> (pystr \<times> pystr) option" where
  "match_number s =
     (let (sign, s1) = (case s of [] \<Rightarrow> ([], s) | c # r \<Rightarrow> if c = 45 then ([c], r) else ([], s))
      in case s1 of
           [] \<Rightarrow> None
         | d # r \<Rightarrow>
             if \<not> is_digit d then None
             else
               let (ip, s2) = (if d = 48 then ([d], r)
                               else (d # takeWhile is_digit r, dropWhile is_digit r));
                   (frac, s3) = (case s2 of
                                   [] \<Rightarrow> ([], s2)
                                 | c # r2 \<Rightarrow>
                                     if c = 46 \<and> takeWhile is_digit r2 \<noteq> []
                                     then (c # takeWhile is_digit r2, dropWhile is_digit r2)
                                     else ([], s2));
                   (ex, s4) = (case s3 of
                                 [] \<Rightarrow> ([], s3)
                               | c # r3 \<Rightarrow>
                                   if c = 101 \<or> c = 69 then
                                     (let (sg, r4) = (case r3 of
                                                        [] \<Rightarrow> ([], r3)
                                                      | g # r' \<Rightarrow>
                                                          if g = 45 \<or> g = 43 then ([g], r')
                                                          else ([], r3))
                                      in if takeWhile is_digit r4 \<noteq> []
                                         then (c # sg @ takeWhile is_digit r4, dropWhile is_digit r4)
                                         else ([], s3))
                                   else ([], s3))
               in Some (sign @ ip @ frac @ ex, s4))"

definition match_lit :: "pystr \<Rightarrow> pystr \<Rightarrow> pystr option" where
  "match_lit lit s = (if take (length lit) s = lit then Some (drop (length lit) s) else None)"

fun scan_once :: "nat \<Rightarrow> pystr \<Rightarrow> (json \<times> pystr) option"
  and JSONObject :: "nat \<Rightarrow> (pystr \<times> json) list \<Rightarrow> pystr \<Rightarrow> (json \<times> pystr) option"
  and JSONArray :: "nat \<Rightarrow> json list \<Rightarrow> pystr \<Rightarrow> (json \<times> pystr) option"
where
  "scan_once 0 s = None"
| "scan_once (Suc n) s =
     (case s of
        [] \<Rightarrow> None
      | c # cs \<Rightarrow>
          if c = 34 then
            (case scanstring cs of None \<Rightarrow> None | Some (t, rest) \<Rightarrow> Some (JString t, rest))
          else if c = 123 then
            (case skip_ws cs of
               [] \<Rightarrow> None
             | d # r \<Rightarrow> if d = 125 then Some (JObject [], r) else JSONObject n [] (d # r))
          else if c = 91 then
            (case skip_ws cs of
               [] \<Rightarrow> None
             | d # r \<Rightarrow> if d = 93 then Some (JArray [], r) else JSONArray n [] (d # r))
          else if c = 110 \<and> match_lit (str ''null'') s \<noteq> None then
            Some (JNull, drop 4 s)
          else if c = 116 \<and> match_lit (str ''true'') s \<noteq> None then
            Some (JBool True, drop 4 s)
          else if c = 102 \<and> match_lit (str ''false'') s \<noteq> None then
            Some (JBool False, drop 5 s)
          else
            (case match_number s of
               Some (lexeme, rest) \<Rightarrow> Some (JNumber lexeme, rest)
             | None \<Rightarrow>
                 if c = 78 \<and> match_lit (str ''NaN'') s \<noteq> None then
                   Some (JNumber (str ''NaN''), drop 3 s)
                 else if c = 73 \<and> match_lit (str ''Infinity'') s \<noteq> None then
                   Some (JNumber (str ''Infinity''), drop 8 s)
                 else if c = 45 \<and> match_lit (str ''-Infinity'') s \<noteq> None then
                   Some (JNumber (str ''-Infinity''), drop 9 s)
                 else None))"
| "JSONObject 0 pairs s = None"
| "JSONObject (Suc n) pairs s =
     (case s of
        [] \<Rightarrow> None
      | q # cs \<Rightarrow>
          if q \<noteq> 34 then None
          else
            (case scanstring cs of
               None \<Rightarrow> None
             | Some (key, r1) \<Rightarrow>
                 (case skip_ws r1 of
                    [] \<Rightarrow> None
                  | colon # r2 \<Rightarrow>
                      if colon \<noteq> 58 then None
                      else
                        (case scan_once n (skip_ws r2) of
                           None \<Rightarrow> None
                         | Some (v, r3) \<Rightarrow>
                             (case skip_ws r3 of
                                [] \<Rightarrow> None
                              | d # r4 \<Rightarrow>
                                  if d = 125 then Some (JObject (pairs @ [(key, v)]), r4)
                                  else if d = 44 then JSONObject n (pairs @ [(key, v)]) (skip_ws r4)
                                  else None)))))"
| "JSONArray 0 vals s = None"
| "JSONArray (Suc n) vals s =
     (case scan_once n s of
        None \<Rightarrow> None
      | Some (v, r1) \<Rightarrow>
          (case skip_ws r1 of
             [] \<Rightarrow> None
           | d # r2 \<Rightarrow>
               if d = 93 then Some (JArray (vals @ [v]), r2)
               else if d = 44 then JSONArray n (vals @ [v]) (skip_ws r2)
               else None))"

definition json_loads :: "pystr \<Rightarrow> error + json" where
  "json_loads s =
     (case scan_once (2 * length s + 2) (skip_ws s) of
        None \<Rightarrow> Inl MalformedConfigError
      | Some (v, rest) \<Rightarrow> if skip_ws rest = [] then Inr v else Inl MalformedConfigError)"

text \<open>
  \<^verbatim>\<open>parse_jsonc\<close>: the scanner, then the substitution, then \<^verbatim>\<open>json.loads\<close>.
\<close>

definition parse_jsonc :: "pystr \<Rightarrow> error + json" where
  "parse_jsonc content =
     (case strip_jsonc_comments content of
        Inl e \<Rightarrow> Inl e
      | Inr stripped \<Rightarrow> json_loads (remove_trailing_commas stripped))"

section \<open>The file system\<close>

text \<open>
  The script reads and writes whole files. A file system is the map from paths to regular
  files (the text as Python reads it, and the permission bits), the set of directories and
  the process's umask. \<^verbatim>\<open>os.path.exists\<close> holds of a file and of a directory; opening a
  directory raises. A new file gets the mode \<^verbatim>\<open>0o666 & ~umask\<close>. Parent directories are not
  followed: writing a new file does not ask for its directory, and \<open>makedirs\<close> records
  the directory it is given, not the ones above it. What the script prints is not
  modelled: every operation returns what the source returns, or the error that ends the
  process, together with the file system it leaves behind.
\<close>

unbundle bit_operations_syntax

record file_entry =
  file_content :: pystr
  file_mode :: nat

record filesystem =
  files :: "pystr \<rightharpoonup> file_entry"
  dirs :: "pystr set"
  umask :: nat

definition path_exists :: "filesystem \<Rightarrow> pystr \<Rightarrow> bool" where
  "path_exists fs path \<longleftrightarrow> files fs path \<noteq> None \<or> path \<in> dirs fs"

definition read_text :: "filesystem \<Rightarrow> pystr \<Rightarrow> error + pystr" where
  "read_text fs path =
     (case files fs path of
        Some f \<Rightarrow> Inr (file_content f)
      | None \<Rightarrow> if path \<in> dirs fs then Inl IsADirectoryError else Inl FileNotFoundError)"

definition write_text :: "pystr \<Rightarrow> pystr \<Rightarrow> filesystem \<Rightarrow> error + filesystem" where
  "write_text path text fs =
     (case files fs path of
        Some f \<Rightarrow> Inr (fs\<lparr>files := (files fs)(path \<mapsto> f\<lparr>file_content := text\<rparr>)\<rparr>)
      | None \<Rightarrow>
          if path \<in> dirs fs then Inl IsADirectoryError
          else Inr (fs\<lparr>files := (files fs)(path \<mapsto>
                 \<lparr>file_content = text, file_mode = 438 - (438 AND umask fs)\<rparr>)\<rparr>))"

definition append_text :: "pystr \<Rightarrow> pystr \<Rightarrow> filesystem \<Rightarrow> error + filesystem" where
  "append_text path text fs =
     (case files fs path of
        Some f \<Rightarrow> Inr (fs\<lparr>files := (files fs)(path \<mapsto> f\<lparr>file_content := file_content f @ text\<rparr>)\<rparr>)
      | None \<Rightarrow>
          if path \<in> dirs fs then Inl IsADirectoryError
          else Inr (fs\<lparr>files := (files fs)(path \<mapsto>
                 \<lparr>file_content = text, file_mode = 438 - (438 AND umask fs)\<rparr>)\<rparr>))"

text \<open>
  \<^verbatim>\<open>expand_path\<close> is \<^verbatim>\<open>os.path.expanduser\<close> for a path that is \<^verbatim>\<open>~\<close> or starts with \<^verbatim>\<open>~/\<close>, the
  only form the script uses; \<open>home\<close> is the user's home directory, without a slash at
  its end. (A path \<^verbatim>\<open>~user/...\<close>, which Python looks up in the password database, is
  returned as it is.)
\<close>

definition expand_path :: "pystr \<Rightarrow> pystr \<Rightarrow> pystr" where
  "expand_path home path =
     (if take 1 path = str ''~'' \<and> (length path = 1 \<or> take 1 (drop 1 path) = str ''/'')
      then home @ drop 1 path else path)"

section \<open>Python's \<^verbatim>\<open>in\<close>, \<^verbatim>\<open>dict.get\<close> and the string methods\<close>

text \<open>
  \<^verbatim>\<open>parse_jsonc\<close> returns whatever \<^verbatim>\<open>json.loads\<close> returns, and the script applies \<^verbatim>\<open>in\<close> and
  \<^verbatim>\<open>.get\<close> to it without looking at its type. \<open>py_in s v\<close> is \<^verbatim>\<open>s in v\<close> for a string
  \<open>s\<close>: a key of a dict, an element of a list, a substring of a string, and
  \<^verbatim>\<open>TypeError\<close> for a number, a boolean and \<^verbatim>\<open>None\<close>. \<open>dict_get v key dflt\<close> is
  \<^verbatim>\<open>v.get(key, dflt)\<close>, an \<^verbatim>\<open>AttributeError\<close> when \<open>v\<close> is no dict.
\<close>

fun contains :: "pystr \<Rightarrow> pystr \<Rightarrow> bool" where
  "contains sub [] \<longleftrightarrow> sub = []"
| "contains sub (c # cs) \<longleftrightarrow> take (length sub) (c # cs) = sub \<or> contains sub cs"

fun py_in :: "pystr \<Rightarrow> json \<Rightarrow> error + bool" where
  "py_in s (JObject pairs) = Inr (s \<in> set (map fst pairs))"
| "py_in s (JArray vals) = Inr (JString s \<in> set vals)"
| "py_in s (JString t) = Inr (contains s t)"
| "py_in s v = Inl TypeError"

fun dict_get :: "json \<Rightarrow> pystr \<Rightarrow> json \<Rightarrow> error + json" where
  "dict_get (JObject pairs) key dflt =
     (case map_of (rev pairs) key of Some v \<Rightarrow> Inr v | None \<Rightarrow> Inr dflt)"
| "dict_get v key dflt = Inl AttributeError"

text \<open>
  \<^verbatim>\<open>re.search\<close> returns the leftmost match; \<open>re_search m s\<close> is the offset of its end
  (\<^verbatim>\<open>match.end()\<close>), where \<open>m\<close> tries the pattern at the start of a text and returns the
  length of the match. \<open>tray_pattern\<close> is \<^verbatim>\<open>("group/tray-expander"\s*)(,)\<close> and
  \<open>modules_pattern\<close> is \<^verbatim>\<open>("modules-right"\s*:\s*\[)(\s*)\<close>. As for the trailing
  commas, each greedy \<^verbatim>\<open>\s*\<close> is followed by a character that is no white space (or, for
  the last one, by nothing), so the longest run is the only one that can match.
\<close>

fun re_search :: "(pystr \<Rightarrow> nat option) \<Rightarrow> pystr \<Rightarrow> nat option" where
  "re_search m [] = m []"
| "re_search m (c # cs) =
     (case m (c # cs) of Some n \<Rightarrow> Some n | None \<Rightarrow> map_option Suc (re_search m cs))"

definition tray_pattern :: "pystr \<Rightarrow> nat option" where
  \<open>tray_pattern s =
     (case match_lit (str ''"group/tray-expander"'') s of
        None \<Rightarrow> None
      | Some r \<Rightarrow>
          (case dropWhile is_space r of
             [] \<Rightarrow> None
           | c # r1 \<Rightarrow> if c = 44 then Some (length s - length r1) else None))\<close>

definition modules_pattern :: "pystr \<Rightarrow> nat option" where
  \<open>modules_pattern s =
     (case match_lit (str ''"modules-right"'') s of
        None \<Rightarrow> None
      | Some r \<Rightarrow>
          (case dropWhile is_space r of
             [] \<Rightarrow> None
           | c # r1 \<Rightarrow>
               if c = 58 then
                 (case dropWhile is_space r1 of
                    [] \<Rightarrow> None
                  | d # r2 \<Rightarrow>
                      if d = 91 then Some (length s - length (dropWhile is_space r2)) else None)
               else None))\<close>

text \<open>
  \<^verbatim>\<open>content.rfind(c)\<close> (\<open>None\<close> for \<^verbatim>\<open>-1\<close>), \<^verbatim>\<open>s.rstrip()\<close> and \<^verbatim>\<open>s.endswith(suf)\<close>.
\<close>

definition rfind :: "pystr \<Rightarrow> nat \<Rightarrow> nat option" where
  "rfind s c =
     (if c \<in> set s then Some (length s - 1 - length (takeWhile (\<lambda>x. x \<noteq> c) (rev s))) else None)"

definition rstrip :: "pystr \<Rightarrow> pystr" where
  "rstrip s = rev (dropWhile is_space (rev s))"

definition endswith :: "pystr \<Rightarrow> pystr \<Rightarrow> bool" where
  "endswith s suf \<longleftrightarrow> length suf \<le> length s \<and> drop (length s - length suf) s = suf"

section \<open>\<^verbatim>\<open>backup_file\<close>\<close>

text \<open>
  \<^verbatim>\<open>backup_file\<close> is \<^verbatim>\<open>shutil.copy2(path, path + ".bak")\<close> and returns \<^verbatim>\<open>path + ".bak"\<close>.
  \<^verbatim>\<open>copy2\<close> copies the content and the mode of the source. When the destination is an
  existing directory it copies \<^emph>\<open>into\<close> it, to \<^verbatim>\<open>os.path.join(dst, os.path.basename(src))\<close>;
  \<open>copy_destination\<close> is the path that is written. Copying an existing path onto itself
  raises, and so does a source or a final destination that is a directory. \<open>isdir\<close>,
  \<open>basename\<close> and \<open>join\<close> are \<^verbatim>\<open>os.path.isdir\<close>, \<^verbatim>\<open>os.path.basename\<close> and \<^verbatim>\<open>os.path.join\<close>
  (of two paths).
\<close>

definition isdir :: "filesystem \<Rightarrow> pystr \<Rightarrow> bool" where
  "isdir fs path \<longleftrightarrow> files fs path = None \<and> path \<in> dirs fs"

definition basename :: "pystr \<Rightarrow> pystr" where
  "basename p = drop (case rfind p 47 of None \<Rightarrow> 0 | Some k \<Rightarrow> k + 1) p"

definition join :: "pystr \<Rightarrow> pystr \<Rightarrow> pystr" where
  "join a b =
     (if take 1 b = str ''/'' then b
      else if a = [] \<or> last a = 47 then a @ b
      else a @ str ''/'' @ b)"

definition copy_destination :: "filesystem \<Rightarrow> pystr \<Rightarrow> pystr \<Rightarrow> pystr" where
  "copy_destination fs src dst = (if isdir fs dst then join dst (basename src) else dst)"

definition copy2 :: "pystr \<Rightarrow> pystr \<Rightarrow> filesystem \<Rightarrow> error + filesystem" where
  "copy2 src dst fs =
     (if copy_destination fs src dst = src \<and> path_exists fs src then Inl SameFileError
      else case files fs src of
        None \<Rightarrow> if src \<in> dirs fs then Inl IsADirectoryError else Inl FileNotFoundError
      | Some f \<Rightarrow>
          if isdir fs (copy_destination fs src dst) then Inl IsADirectoryError
          else Inr (fs\<lparr>files := (files fs)(copy_destination fs src dst \<mapsto> f)\<rparr>))"

definition backup_file :: "pystr \<Rightarrow> filesystem \<Rightarrow> error + pystr \<times> filesystem" where
  "backup_file path fs =
     (let backup_path = path @ str ''.bak''
      in case copy2 path backup_path fs of
           Inl e \<Rightarrow> Inl e
         | Inr fs1 \<Rightarrow> Inr (backup_path, fs1))"

text \<open>
  \<open>backup_destination fs path\<close> is the path at which \<open>backup_file path\<close> leaves the copy.
\<close>

definition backup_destination :: "filesystem \<Rightarrow> pystr \<Rightarrow> pystr" where
  "backup_destination fs path = copy_destination fs path (path @ str ''.bak'')"

section \<open>Operation A: \<^verbatim>\<open>modify_config_jsonc\<close>\<close>

text \<open>
  \<open>insert_module\<close> is the block \<^verbatim>\<open>if not has_vpn_in_modules:\<close> (lines 143 to 164) and
  \<open>insert_definition\<close> the block \<^verbatim>\<open>if not has_vpn_definition:\<close> (lines 166 to 192), each
  as the text it leaves in \<^verbatim>\<open>content\<close>, or the error of its \<^verbatim>\<open>sys.exit(1)\<close>.
  \<open>idempotency_checks\<close> is lines 121 to 131: the decoding, the test for
  \<^verbatim>\<open>modules-right\<close> and the two flags \<^verbatim>\<open>has_vpn_in_modules\<close> and \<^verbatim>\<open>has_vpn_definition\<close>.
  \<open>modify_config_jsonc\<close> follows the source line by line; an error after the backup
  leaves the backup in place.
\<close>

definition vpn_module_text :: pystr where
  \<open>vpn_module_text =
     str ''\<newline>  "custom/vpn": {\<newline>'' @
     str ''    "format": "{}",\<newline>'' @
     str ''    "return-type": "json",\<newline>'' @
     str ''    "exec": "~/.config/waybar/scripts/vpn-toggle.sh",\<newline>'' @
     str ''    "on-click": "~/.config/waybar/scripts/vpn-toggle.sh toggle",\<newline>'' @
     str ''    "interval": 5\<newline>'' @
     str ''  }''\<close>

definition insert_module :: "pystr \<Rightarrow> error + pystr" where
  \<open>insert_module content =
     (case re_search tray_pattern content of
        Some insert_pos \<Rightarrow>
          Inr (take insert_pos content @ str ''\<newline>    "custom/vpn",'' @ drop insert_pos content)
      | None \<Rightarrow>
          (case re_search modules_pattern content of
             Some insert_pos \<Rightarrow>
               Inr (take insert_pos content @ str ''"custom/vpn",\<newline>    '' @ drop insert_pos content)
           | None \<Rightarrow> Inl AnchorNotFoundError))\<close>

definition insert_definition :: "pystr \<Rightarrow> error + pystr" where
  "insert_definition content =
     (case rfind content 125 of
        None \<Rightarrow> Inl AnchorNotFoundError
      | Some last_brace_pos \<Rightarrow>
          (let pre_brace_content = rstrip (take last_brace_pos content);
               needs_comma = (\<not> endswith pre_brace_content (str '',''));
               vpn_module = (if needs_comma then str '','' @ vpn_module_text else vpn_module_text)
           in Inr (take last_brace_pos content @ vpn_module @ str ''\<newline>''
                     @ drop last_brace_pos content)))"

definition idempotency_checks :: "pystr \<Rightarrow> error + bool \<times> bool" where
  "idempotency_checks content =
     (case parse_jsonc content of
        Inl e \<Rightarrow> Inl e
      | Inr config \<Rightarrow>
          (case py_in (str ''modules-right'') config of
             Inl e \<Rightarrow> Inl e
           | Inr present \<Rightarrow>
               if \<not> present then Inl MissingFieldError
               else
                 (case dict_get config (str ''modules-right'') (JArray []) of
                    Inl e \<Rightarrow> Inl e
                  | Inr modules_right \<Rightarrow>
                      (case py_in (str ''custom/vpn'') modules_right of
                         Inl e \<Rightarrow> Inl e
                       | Inr has_vpn_in_modules \<Rightarrow>
                           (case py_in (str ''custom/vpn'') config of
                              Inl e \<Rightarrow> Inl e
                            | Inr has_vpn_definition \<Rightarrow>
                                Inr (has_vpn_in_modules, has_vpn_definition))))))"

definition modify_config_jsonc :: "pystr \<Rightarrow> filesystem \<Rightarrow> (error + bool) \<times> filesystem" where
  "modify_config_jsonc path fs =
     (if \<not> path_exists fs path then (Inl MissingFileError, fs)
      else case read_text fs path of
        Inl e \<Rightarrow> (Inl e, fs)
      | Inr content \<Rightarrow>
      (case idempotency_checks content of
        Inl e \<Rightarrow> (Inl e, fs)
      | Inr (has_vpn_in_modules, has_vpn_definition) \<Rightarrow>
      if has_vpn_in_modules \<and> has_vpn_definition then (Inr False, fs)
      else case backup_file path fs of
        Inl e \<Rightarrow> (Inl e, fs)
      | Inr (backup_path, fs1) \<Rightarrow>
      (case (if \<not> has_vpn_in_modules then insert_module content else Inr content) of
        Inl e \<Rightarrow> (Inl e, fs1)
      | Inr content1 \<Rightarrow>
      (case (if \<not> has_vpn_definition then insert_definition content1 else Inr content1) of
        Inl e \<Rightarrow> (Inl e, fs1)
      | Inr content2 \<Rightarrow>
      (let modified = (\<not> has_vpn_in_modules \<or> \<not> has_vpn_definition)
       in if modified then
            (case write_text path content2 fs1 of
               Inl e \<Rightarrow> (Inl e, fs1)
             | Inr fs2 \<Rightarrow> (Inr modified, fs2))
          else (Inr modified, fs1))))))"

section \<open>Operation B: \<^verbatim>\<open>modify_style_css\<close>\<close>

definition css_block :: pystr where
  "css_block =
     str ''\<newline>#custom-vpn {\<newline>'' @
     str ''  min-width: 12px;\<newline>'' @
     str ''  margin-left: 7.5px;\<newline>'' @
     str ''  margin-right: 17px;\<newline>'' @
     str ''}\<newline>''"

definition modify_style_css :: "pystr \<Rightarrow> filesystem \<Rightarrow> (error + bool) \<times> filesystem" where
  "modify_style_css path fs =
     (if \<not> path_exists fs path then (Inl MissingFileError, fs)
      else case read_text fs path of
        Inl e \<Rightarrow> (Inl e, fs)
      | Inr content \<Rightarrow>
          if contains (str ''#custom-vpn'') content then (Inr False, fs)
          else case backup_file path fs of
            Inl e \<Rightarrow> (Inl e, fs)
          | Inr (backup_path, fs1) \<Rightarrow>
              (case append_text path css_block fs1 of
                 Inl e \<Rightarrow> (Inl e, fs1)
               | Inr fs2 \<Rightarrow> (Inr True, fs2)))"

section \<open>Operation C: \<^verbatim>\<open>create_vpn_script\<close>\<close>

text \<open>
  The script text is the f-string of the source with the two icons filled in (\<^verbatim>\<open>{{\<close> and
  \<^verbatim>\<open>}}\<close> are the braces of the f-string). \<open>dirname\<close> is \<^verbatim>\<open>os.path.dirname\<close>;
  \<open>makedirs\<close> is \<^verbatim>\<open>os.makedirs\<close>, which raises on the empty path; the mode bits added are
  \<^verbatim>\<open>S_IXUSR | S_IXGRP | S_IXOTH\<close>.
\<close>

definition ICON_LOCK :: pystr where
  "ICON_LOCK = [0xF033E]"

definition ICON_LOCK_OPEN :: pystr where
  "ICON_LOCK_OPEN = [0xF0FC6]"

definition get_vpn_script_content :: pystr where
  \<open>get_vpn_script_content =
     str ''#!/bin/bash\<newline>'' @
     str ''INTERFACE="home"\<newline>'' @
     str ''\<newline>'' @
     str ''if ip link show "$INTERFACE" 2>/dev/null | grep -q "state UP"; then\<newline>'' @
     str ''    if '' @ [91, 91] @ str '' "$1" == "toggle" '' @ [93, 93] @ str ''; then\<newline>'' @
     str ''        sudo wg-quick down "$INTERFACE"\<newline>'' @
     str ''    else\<newline>'' @
     str ''        echo '' @ [39] @ str ''{"text": "'' @ ICON_LOCK
       @ str ''", "tooltip": "VPN: Connected", "class": "connected"}'' @ [39] @ str ''\<newline>'' @
     str ''    fi\<newline>'' @
     str ''else\<newline>'' @
     str ''    if '' @ [91, 91] @ str '' "$1" == "toggle" '' @ [93, 93] @ str ''; then\<newline>'' @
     str ''        sudo wg-quick up "$INTERFACE"\<newline>'' @
     str ''    else\<newline>'' @
     str ''        echo '' @ [39] @ str ''{"text": "'' @ ICON_LOCK_OPEN
       @ str ''", "tooltip": "VPN: Disconnected", "class": "disconnected"}'' @ [39] @ str ''\<newline>'' @
     str ''    fi\<newline>'' @
     str ''fi\<newline>''\<close>

definition dirname :: "pystr \<Rightarrow> pystr" where
  "dirname p =
     (let i = (case rfind p 47 of None \<Rightarrow> 0 | Some k \<Rightarrow> k + 1);
          head = take i p
      in if head \<noteq> [] \<and> head \<noteq> replicate (length head) 47
         then rev (dropWhile (\<lambda>c. c = 47) (rev head)) else head)"

definition makedirs :: "pystr \<Rightarrow> filesystem \<Rightarrow> error + filesystem" where
  "makedirs name fs =
     (if name = [] then Inl FileNotFoundError else Inr (fs\<lparr>dirs := insert name (dirs fs)\<rparr>))"

definition chmod_executable :: "pystr \<Rightarrow> filesystem \<Rightarrow> error + filesystem" where
  "chmod_executable path fs =
     (case files fs path of
        None \<Rightarrow> Inl FileNotFoundError
      | Some f \<Rightarrow> Inr (fs\<lparr>files := (files fs)(path \<mapsto> f\<lparr>file_mode := file_mode f OR 64 OR 8 OR 1\<rparr>)\<rparr>))"

definition create_vpn_script :: "pystr \<Rightarrow> filesystem \<Rightarrow> (error + bool) \<times> filesystem" where
  "create_vpn_script path fs =
     (let scripts_dir = dirname path;
          script_content = get_vpn_script_content
      in case (if path_exists fs path then read_text fs path else Inr []) of
           Inl e \<Rightarrow> (Inl e, fs)
         | Inr existing_content \<Rightarrow>
             if path_exists fs path \<and> existing_content = script_content then (Inr False, fs)
             else case (if \<not> path_exists fs scripts_dir then makedirs scripts_dir fs else Inr fs) of
               Inl e \<Rightarrow> (Inl e, fs)
             | Inr fs1 \<Rightarrow>
                 (case write_text path script_content fs1 of
                    Inl e \<Rightarrow> (Inl e, fs1)
                  | Inr fs2 \<Rightarrow>
                      (case chmod_executable path fs2 of
                         Inl e \<Rightarrow> (Inl e, fs2)
                       | Inr fs3 \<Rightarrow> (Inr True, fs3))))"

section \<open>The run: \<^verbatim>\<open>main\<close>\<close>

text \<open>
  The three operations in order; the first error ends the run and keeps what was written
  before it. The result is the three flags \<^verbatim>\<open>config_modified\<close>, \<^verbatim>\<open>style_modified\<close>,
  \<^verbatim>\<open>script_modified\<close>.
\<close>

definition config_path :: "pystr \<Rightarrow> pystr" where
  "config_path home = expand_path home (str ''~/.config/waybar/config.jsonc'')"

definition style_path :: "pystr \<Rightarrow> pystr" where
  "style_path home = expand_path home (str ''~/.config/waybar/style.css'')"

definition script_path :: "pystr \<Rightarrow> pystr" where
  "script_path home = expand_path home (str ''~/.config/waybar/scripts/vpn-toggle.sh'')"

definition main :: "pystr \<Rightarrow> filesystem \<Rightarrow> (error + bool \<times> bool \<times> bool) \<times> filesystem" where
  "main home fs =
     (case modify_config_jsonc (config_path home) fs of
        (Inl e, fs1) \<Rightarrow> (Inl e, fs1)
      | (Inr config_modified, fs1) \<Rightarrow>
          (case modify_style_css (style_path home) fs1 of
             (Inl e, fs2) \<Rightarrow> (Inl e, fs2)
           | (Inr style_modified, fs2) \<Rightarrow>
               (case create_vpn_script (script_path home) fs2 of
                  (Inl e, fs3) \<Rightarrow> (Inl e, fs3)
                | (Inr script_modified, fs3) \<Rightarrow>
                    (Inr (config_modified, style_modified, script_modified), fs3))))"

section \<open>Properties of the normalizer\<close>

lemma subseq_drop_line: "subseq (drop_line cs) cs"
  by (induction cs) auto

lemma subseq_drop_block: "subseq (drop_block cs) cs"
  by (induction cs rule: drop_block.induct) (auto intro: subseq_Cons' list_emb_Cons)

lemma subseq_drop: "subseq (drop n cs) cs"
  by (metis append_take_drop_id list_emb_append2 subseq_order.order_refl)

lemma subseq_strip_from: "subseq (strip_from s e cs) cs"
proof (induction s e cs rule: strip_from.induct)
  case (1 s e)
  then show ?case by simp
next
  case (2 s e c cs)
  have l: "subseq (strip_from False False (drop_line cs)) (c # cs)"
    if "subseq (strip_from False False (drop_line cs)) (drop_line cs)"
    using that subseq_drop_line [of cs] by (meson list_emb_Cons subseq_order.order_trans)
  have b: "subseq (strip_from False False (drop_block (drop 1 cs))) (c # cs)"
    if "subseq (strip_from False False (drop_block (drop 1 cs))) (drop_block (drop 1 cs))"
    using that subseq_drop_block [of "drop 1 cs"] subseq_drop [of 1 cs]
    by (meson list_emb_Cons subseq_order.order_trans)
  from 2 l b show ?case
    by (subst strip_from.simps(2)) auto
qed

lemma subseq_remove_trailing_commas: "subseq (remove_trailing_commas cs) cs"
proof (induction cs rule: remove_trailing_commas.induct)
  case 1
  then show ?case by simp
next
  case (2 c cs)
  show ?case
  proof (cases "match_trailing_comma (c # cs)")
    case None
    with 2 show ?thesis by (subst remove_trailing_commas.simps(2)) simp
  next
    case (Some p)
    obtain g rest where p: "p = (g, rest)" by (cases p)
    have sh: "c # cs = 44 # g @ rest"
      using Some p match_trailing_comma_shape [of "c # cs" g rest] by simp
    from 2(2) [OF Some p [symmetric]] have "subseq (remove_trailing_commas rest) rest" .
    then have "subseq (g @ remove_trailing_commas rest) (44 # g @ rest)"
      by (intro list_emb_Cons list_emb_append_mono) simp_all
    with Some p sh show ?thesis by (subst remove_trailing_commas.simps(2)) simp
  qed
qed

lemma strip_jsonc_comments_strip_from:
  "strip_jsonc_comments content = Inr (strip_from False False content)"
  by (simp add: strip_jsonc_comments_def strip_loop_strip_from)

text \<open>
  Claim C10. For every input text, normalization (the comment scanner followed by the
  removal of trailing commas) returns a text, and that text is a subsequence of the
  input: both passes only delete characters; they insert, replace and reorder nothing.
\<close>

theorem normalize_subseq: "\<exists>out. normalize content = Inr out \<and> subseq out content"
proof -
  have "subseq (remove_trailing_commas (strip_from False False content)) content"
    using subseq_remove_trailing_commas subseq_strip_from subseq_order.order_trans by blast
  then show ?thesis
    by (simp add: normalize_def strip_jsonc_comments_strip_from)
qed

lemma drop_block_unterminated:
  "(\<forall>k. slice cs k (k + 2) \<noteq> str ''*/'') \<Longrightarrow> drop_block cs = []"
proof (induction cs rule: drop_block.induct)
  case (1 a b cs)
  have "slice (a # b # cs) 0 (0 + 2) \<noteq> str ''*/''" using 1(2) by blast
  then have ne: "[a, b] \<noteq> str ''*/''" by (simp add: slice_def)
  have "\<forall>k. slice (b # cs) k (k + 2) \<noteq> str ''*/''"
  proof
    fix k
    have "slice (a # b # cs) (Suc k) (Suc k + 2) \<noteq> str ''*/''" using 1(2) by blast
    then show "slice (b # cs) k (k + 2) \<noteq> str ''*/''" by (simp add: slice_def)
  qed
  with 1(1) [OF ne] ne show ?case by simp
qed simp_all

text \<open>
  Claim C9. The scan is total and free of errors: on every input text
  \<open>strip_jsonc_comments\<close> returns a text (the model's \<open>IndexError\<close> branch is never
  taken, and the recursion terminates). When the loop stands outside any string on a
  \<^verbatim>\<open>/*\<close> after which no \<^verbatim>\<open>*/\<close> follows, it emits nothing more and returns what it has
  collected. When the last character of the input is a backslash met inside a string, it
  is copied and the loop ends there.
\<close>

theorem strip_jsonc_comments_total:
  "(\<exists>out. strip_jsonc_comments content = Inr out)
   \<and> (i < length content \<longrightarrow> slice content i (i + 2) = str ''/*''
        \<longrightarrow> (\<forall>k\<ge>i + 2. slice content k (k + 2) \<noteq> str ''*/'')
        \<longrightarrow> strip_loop content i False False result = Inr result)
   \<and> strip_loop (pre @ [92]) (length pre) True False result = Inr (result @ [92])"
proof (intro conjI impI)
  show "\<exists>out. strip_jsonc_comments content = Inr out"
    by (simp add: strip_jsonc_comments_strip_from)
next
  assume i: "i < length content" and op: "slice content i (i + 2) = str ''/*''"
    and un: "\<forall>k\<ge>i + 2. slice content k (k + 2) \<noteq> str ''*/''"
  from i have d: "drop i content = content ! i # drop (i + 1) content"
    by (simp add: Cons_nth_drop_Suc)
  with op have c: "content ! i = 47" "take 1 (drop (i + 1) content) = [42]"
    by (simp_all add: slice_def numeral_2_eq_2)
  have "\<forall>k. slice (drop (i + 2) content) k (k + 2) \<noteq> str ''*/''"
  proof
    fix k
    have "slice content (i + 2 + k) (i + 2 + k + 2) \<noteq> str ''*/''" using un by simp
    then show "slice (drop (i + 2) content) k (k + 2) \<noteq> str ''*/''"
      by (simp add: slice_def add.commute add.left_commute)
  qed
  then have "drop_block (drop (i + 2) content) = []" by (rule drop_block_unterminated)
  moreover have "drop (i + 2) content = drop 1 (drop (i + 1) content)" by simp
  ultimately have "strip_from False False (drop i content) = []"
    using d c by (simp add: strip_from.simps(2))
  then show "strip_loop content i False False result = Inr result"
    by (simp add: strip_loop_strip_from)
next
  show "strip_loop (pre @ [92]) (length pre) True False result = Inr (result @ [92])"
    by (simp add: strip_loop_strip_from strip_from.simps(2))
qed

theorem strip_jsonc_comments_total_witness:
  \<open>(\<exists>out. strip_jsonc_comments (str ''{"a": 1} /* open'') = Inr out)
   \<and> (2::nat) < length (str ''ab/*cd'') \<and> slice (str ''ab/*cd'') 2 (2 + 2) = str ''/*''
   \<and> strip_loop (str ''ab/*cd'') 2 False False (str ''ab'') = Inr (str ''ab'')
   \<and> strip_loop (str ''"x'' @ [92]) (length (str ''"x'')) True False (str ''"x'') = Inr (str ''"x'' @ [92])\<close>
proof -
  have h: "\<forall>k\<ge>2 + 2. slice (str ''ab/*cd'') k (k + 2) \<noteq> str ''*/''"
  proof (intro allI impI)
    fix k :: nat assume "2 + 2 \<le> k"
    then have "k = 4 \<or> k = 5 \<or> 6 \<le> k" by arith
    then show "slice (str ''ab/*cd'') k (k + 2) \<noteq> str ''*/''"
      by (auto simp: slice_def)
  qed
  show ?thesis
    using h strip_jsonc_comments_total [of "str ''{\"a\": 1} /* open''" 2 "str ''ab''" "str ''\"x''"]
      strip_jsonc_comments_total [of "str ''ab/*cd''" 2 "str ''ab''" "str ''\"x''"]
      strip_jsonc_comments_total [of "str ''ab/*cd''" 2 "str ''\"x''" "str ''\"x''"]
    by (simp add: slice_def)
qed

lemma parse_jsonc_normalize:
  "parse_jsonc content = (case normalize content of Inl e \<Rightarrow> Inl e | Inr t \<Rightarrow> json_loads t)"
  by (simp add: parse_jsonc_def normalize_def split: sum.splits)

text \<open>
  The equations with which the simplifier runs the normalizer on a concrete text.
\<close>

lemmas normalizer_eval =
  strip_jsonc_comments_strip_from strip_from.simps(2)
  remove_trailing_commas.simps(2) match_trailing_comma_def is_space_def

subsection \<open>What the scanner keeps and what it drops\<close>

text \<open>
  \<open>string_body e b\<close>: \<open>b\<close> is the inside of a string literal as the scanner reads it,
  started with the escape flag \<open>e\<close>: it has no quote other than escaped ones and does not
  end in the middle of an escape.
\<close>

fun string_body :: "bool \<Rightarrow> pystr \<Rightarrow> bool" where
  "string_body e [] \<longleftrightarrow> \<not> e"
| "string_body e (c # cs) \<longleftrightarrow>
     (if e then string_body False cs
      else if c = 92 then string_body True cs
      else c \<noteq> 34 \<and> string_body False cs)"

lemma strip_from_string_body:
  "string_body e b \<Longrightarrow> strip_from True e (b @ 34 # rest) = b @ 34 # strip_from False False rest"
proof (induction b arbitrary: e)
  case Nil
  then show ?case by (simp add: strip_from.simps(2))
next
  case (Cons c b)
  then show ?case by (auto simp: strip_from.simps(2) split: if_splits)
qed

lemma strip_from_string_literal:
  "string_body False b \<Longrightarrow>
   strip_from False False (34 # b @ 34 # rest) = 34 # b @ 34 # strip_from False False rest"
  by (simp add: strip_from.simps(2) strip_from_string_body)

lemma drop_line_to_newline: "10 \<notin> set c \<Longrightarrow> drop_line (c @ 10 # rest) = 10 # rest"
  by (induction c) auto

lemma strip_from_line_comment:
  "10 \<notin> set c \<Longrightarrow>
   strip_from False False (str ''//'' @ c @ 10 # rest) = 10 # strip_from False False rest"
  by (simp add: strip_from.simps(2) drop_line_to_newline)

lemma strip_from_line_comment_end:
  "10 \<notin> set c \<Longrightarrow> strip_from False False (str ''//'' @ c) = []"
proof -
  assume "10 \<notin> set c"
  then have "drop_line c = []" by (induction c) auto
  then show ?thesis by (simp add: strip_from.simps(2))
qed

lemma drop_block_to_close:
  "\<not> contains (str ''*/'') c \<Longrightarrow> drop_block (c @ str ''*/'' @ rest) = rest"
proof (induction c)
  case Nil
  then show ?case by simp
next
  case (Cons x c)
  then show ?case by (cases c) (auto split: if_splits)
qed

lemma strip_from_block_comment:
  "\<not> contains (str ''*/'') c \<Longrightarrow>
   strip_from False False (str ''/*'' @ c @ str ''*/'' @ rest) = strip_from False False rest"
  using drop_block_to_close [of c rest] by (simp add: strip_from.simps(2))

lemma strip_from_no_slash: "47 \<notin> set t \<Longrightarrow> strip_from s e t = t"
  by (induction t arbitrary: s e) (auto simp: strip_from.simps(2))

lemma remove_trailing_commas_no_comma: "44 \<notin> set t \<Longrightarrow> remove_trailing_commas t = t"
  by (induction t) (auto simp: remove_trailing_commas.simps(2) match_trailing_comma_def)

subsection \<open>Commas inside strings\<close>

definition comma_brace_string :: pystr where
  \<open>comma_brace_string = str ''{"a": ",}"}''\<close>

definition comment_like_string :: pystr where
  \<open>comment_like_string = str ''["//,]"]''\<close>

text \<open>
  Claim C1 does not hold of the code. The text \<^verbatim>\<open>{"a": ",}"}\<close> is strict JSON without
  comments and without trailing commas; the comma in it is inside a string. The scanner
  leaves the text as it is, but the substitution of \<open>remove_trailing_commas\<close> does not
  know about strings and deletes that comma, so \<open>parse_jsonc\<close> decodes the string
  \<^verbatim>\<open>}\<close> where \<^verbatim>\<open>json.loads\<close> on the original text decodes \<^verbatim>\<open>,}\<close>.
\<close>

theorem parse_jsonc_alters_strict_json:
  \<open>strip_jsonc_comments comma_brace_string = Inr comma_brace_string
   \<and> json_loads comma_brace_string = Inr (JObject [(str ''a'', JString (str '',}''))])
   \<and> normalize comma_brace_string = Inr (str ''{"a": "}"}'')
   \<and> parse_jsonc comma_brace_string = Inr (JObject [(str ''a'', JString (str ''}''))])\<close>
proof -
  have s: "strip_jsonc_comments comma_brace_string = Inr comma_brace_string"
    by (simp add: comma_brace_string_def normalizer_eval)
  have r: "remove_trailing_commas comma_brace_string = str ''{\"a\": \"}\"}''"
    by (simp add: comma_brace_string_def normalizer_eval)
  have j: "json_loads comma_brace_string = Inr (JObject [(str ''a'', JString (str '',}''))])"
    by code_simp
  have j': "json_loads (str ''{\"a\": \"}\"}'') = Inr (JObject [(str ''a'', JString (str ''}''))])"
    by code_simp
  show ?thesis
    using s r j j' by (simp add: normalize_def parse_jsonc_def)
qed

text \<open>
  Claim C5 does not hold of the code, for the same reason. The scanner itself does what
  the claim says (\<open>strip_from_string_literal\<close>, \<open>strip_from_line_comment\<close>,
  \<open>strip_from_block_comment\<close>), but normalization is the scanner followed by
  \<open>remove_trailing_commas\<close>: the string \<^verbatim>\<open>//,]\<close>, which contains \<^verbatim>\<open>//\<close>, passes the scanner
  unchanged and then loses its comma.
\<close>

theorem normalize_alters_comment_like_string:
  \<open>strip_jsonc_comments comment_like_string = Inr comment_like_string
   \<and> json_loads comment_like_string = Inr (JArray [JString (str ''//,]'')])
   \<and> normalize comment_like_string = Inr (str ''["//]"]'')
   \<and> parse_jsonc comment_like_string = Inr (JArray [JString (str ''//]'')])\<close>
proof -
  have s: "strip_jsonc_comments comment_like_string = Inr comment_like_string"
    by (simp add: comment_like_string_def normalizer_eval)
  have r: "remove_trailing_commas comment_like_string = str ''[\"//]\"]''"
    by (simp add: comment_like_string_def normalizer_eval)
  have j: "json_loads comment_like_string = Inr (JArray [JString (str ''//,]'')])"
    by code_simp
  have j': "json_loads (str ''[\"//]\"]'') = Inr (JArray [JString (str ''//]'')])"
    by code_simp
  show ?thesis
    using s r j j' by (simp add: normalize_def parse_jsonc_def)
qed

section \<open>Properties of the patch operations\<close>

lemma not_is_space_comma [simp]: "\<not> is_space 44"
  by (simp add: is_space_def)

lemma rfind_last:
  "content = pre @ c # post \<Longrightarrow> c \<notin> set post \<Longrightarrow> rfind content c = Some (length pre)"
proof -
  assume c: "content = pre @ c # post" and n: "c \<notin> set post"
  have "takeWhile (\<lambda>x. x \<noteq> c) (rev post @ c # rev pre) = rev post"
    using n by (simp add: takeWhile_append)
  then show ?thesis using c by (simp add: rfind_def)
qed

lemma rstrip_append_spaces:
  "list_all is_space w \<Longrightarrow> \<not> is_space x \<Longrightarrow> rstrip (u @ x # w) = u @ [x]"
proof -
  assume w: "list_all is_space w" and x: "\<not> is_space x"
  have "dropWhile is_space (rev w @ x # rev u) = x # rev u"
    using w x by (simp add: dropWhile_append list_all_iff)
  then show ?thesis by (simp add: rstrip_def)
qed

lemma rstrip_decompose: "\<exists>w. s = rstrip s @ w \<and> list_all is_space w"
proof -
  have "rev s = takeWhile is_space (rev s) @ dropWhile is_space (rev s)" by simp
  then have "s = rev (dropWhile is_space (rev s)) @ rev (takeWhile is_space (rev s))"
    by (metis rev_append rev_rev_ident)
  moreover have "list_all is_space (rev (takeWhile is_space (rev s)))"
    by (simp add: list_all_iff) (meson set_takeWhileD)
  ultimately show ?thesis unfolding rstrip_def by blast
qed

lemma endswith_comma_iff:
  "endswith (rstrip pre) (str '','') \<longleftrightarrow> (\<exists>u w. pre = u @ 44 # w \<and> list_all is_space w)"
proof
  assume e: "endswith (rstrip pre) (str '','')"
  then have "rstrip pre = take (length (rstrip pre) - 1) (rstrip pre) @ [44]"
    by (simp add: endswith_def) (metis append_take_drop_id)
  moreover obtain w where "pre = rstrip pre @ w" "list_all is_space w"
    using rstrip_decompose by blast
  ultimately have "pre = take (length (rstrip pre) - 1) (rstrip pre) @ 44 # w \<and> list_all is_space w"
    by (metis append.assoc append_Cons append_Nil)
  then show "\<exists>u w. pre = u @ 44 # w \<and> list_all is_space w" by blast
next
  assume "\<exists>u w. pre = u @ 44 # w \<and> list_all is_space w"
  then obtain u w where p: "pre = u @ 44 # w" "list_all is_space w" by blast
  then have "rstrip pre = u @ [44]" by (simp add: rstrip_append_spaces)
  then show "endswith (rstrip pre) (str '','')" by (simp add: endswith_def)
qed

text \<open>
  Claim C6. When the definition of \<^verbatim>\<open>custom/vpn\<close> is inserted before the last closing brace
  of the document, a comma is put in front of it exactly when the text before that brace,
  with its trailing white space removed, does not already end in a comma.
\<close>

theorem insert_definition_comma:
  "content = pre @ 125 # post \<Longrightarrow> 125 \<notin> set post \<Longrightarrow>
   insert_definition content =
     Inr (pre
          @ (if \<exists>u w. pre = u @ 44 # w \<and> list_all is_space w then [] else str '','')
          @ vpn_module_text @ str ''\<newline>'' @ 125 # post)"
proof -
  assume c: "content = pre @ 125 # post" and n: "125 \<notin> set post"
  have "rfind content 125 = Some (length pre)" using c n by (rule rfind_last)
  then show ?thesis
    using c endswith_comma_iff [of pre] by (simp add: insert_definition_def Let_def)
qed

theorem insert_definition_comma_witness:
  \<open>insert_definition (str ''{"a": 1}'') = Inr (str ''{"a": 1,'' @ vpn_module_text @ str ''\<newline>}'')
   \<and> insert_definition (str ''{"a": 1, \<newline>}'')
       = Inr (str ''{"a": 1, \<newline>'' @ vpn_module_text @ str ''\<newline>}'')\<close>
proof -
  have a: "\<not> (\<exists>u w. str ''{\"a\": 1'' = u @ 44 # w \<and> list_all is_space w)"
  proof
    assume "\<exists>u w. str ''{\"a\": 1'' = u @ 44 # w \<and> list_all is_space w"
    then obtain u w where "str ''{\"a\": 1'' = u @ 44 # w" by blast
    then have "44 \<in> set (str ''{\"a\": 1'')" by (metis in_set_conv_decomp)
    then show False by simp
  qed
  have b: "\<exists>u w. str ''{\"a\": 1, \<newline>'' = u @ 44 # w \<and> list_all is_space w"
    by (rule exI [of _ "str ''{\"a\": 1''"], rule exI [of _ "str '' \<newline>''"]) (simp add: is_space_def)
  show ?thesis
    using insert_definition_comma [of "str ''{\"a\": 1}''" "str ''{\"a\": 1''" "[]"]
      insert_definition_comma [of "str ''{\"a\": 1, \<newline>}''" "str ''{\"a\": 1, \<newline>''" "[]"] a b
    by simp
qed

subsection \<open>Files that are already configured\<close>

text \<open>
  The idempotency conditions in the specification's words: the decoded config is an object
  whose value at \<^verbatim>\<open>modules-right\<close> is a list that contains \<^verbatim>\<open>custom/vpn\<close>, and which has the
  key \<^verbatim>\<open>custom/vpn\<close>; the stylesheet contains the selector; the script is the generated text.
\<close>

definition config_configured :: "pystr \<Rightarrow> bool" where
  "config_configured content \<longleftrightarrow>
     (case parse_jsonc content of
        Inr (JObject pairs) \<Rightarrow>
          (case map_of (rev pairs) (str ''modules-right'') of
             Some (JArray vals) \<Rightarrow>
               JString (str ''custom/vpn'') \<in> set vals \<and> str ''custom/vpn'' \<in> set (map fst pairs)
           | _ \<Rightarrow> False)
      | _ \<Rightarrow> False)"

lemma copy_destination_cases:
  "copy_destination fs src dst = dst \<or> copy_destination fs src dst = join dst (basename src)"
  by (simp add: copy_destination_def)

lemma backup_file_files:
  "backup_file path fs = Inr (bp, fs1) \<Longrightarrow>
   files fs1 = (files fs)(copy_destination fs path (path @ str ''.bak'') := files fs path)
   \<and> files fs path \<noteq> None"
  by (auto simp: backup_file_def copy2_def Let_def split: option.splits if_splits sum.splits)

lemma write_text_files:
  "write_text path t fs = Inr fs' \<Longrightarrow> \<exists>g. files fs' = (files fs)(path \<mapsto> g)"
  by (auto simp: write_text_def split: option.splits if_splits)

lemma append_text_files:
  "append_text path t fs = Inr fs' \<Longrightarrow> \<exists>g. files fs' = (files fs)(path \<mapsto> g)"
  by (auto simp: append_text_def split: option.splits if_splits)

lemma chmod_executable_files:
  "chmod_executable path fs = Inr fs' \<Longrightarrow> \<exists>g. files fs' = (files fs)(path \<mapsto> g)"
  by (auto simp: chmod_executable_def split: option.splits if_splits)

lemma makedirs_files: "makedirs d fs = Inr fs' \<Longrightarrow> files fs' = files fs"
  by (auto simp: makedirs_def split: if_splits)

lemma modify_config_jsonc_frame_destination:
  "q \<noteq> path \<Longrightarrow> q \<noteq> copy_destination fs path (path @ str ''.bak'') \<Longrightarrow>
   files (snd (modify_config_jsonc path fs)) q = files fs q"
  unfolding modify_config_jsonc_def
  by (auto simp: Let_def split: sum.splits if_splits prod.splits
      dest!: backup_file_files write_text_files)

lemma modify_style_css_frame_destination:
  "q \<noteq> path \<Longrightarrow> q \<noteq> copy_destination fs path (path @ str ''.bak'') \<Longrightarrow>
   files (snd (modify_style_css path fs)) q = files fs q"
  unfolding modify_style_css_def
  by (auto simp: Let_def split: sum.splits if_splits prod.splits
      dest!: backup_file_files append_text_files)

lemma modify_config_jsonc_frame:
  "q \<noteq> path \<Longrightarrow> q \<noteq> path @ str ''.bak'' \<Longrightarrow>
   q \<noteq> join (path @ str ''.bak'') (basename path) \<Longrightarrow>
   files (snd (modify_config_jsonc path fs)) q = files fs q"
  using copy_destination_cases [of fs path "path @ str ''.bak''"]
  by (auto intro: modify_config_jsonc_frame_destination)

lemma modify_style_css_frame:
  "q \<noteq> path \<Longrightarrow> q \<noteq> path @ str ''.bak'' \<Longrightarrow>
   q \<noteq> join (path @ str ''.bak'') (basename path) \<Longrightarrow>
   files (snd (modify_style_css path fs)) q = files fs q"
  using copy_destination_cases [of fs path "path @ str ''.bak''"]
  by (auto intro: modify_style_css_frame_destination)

lemma create_vpn_script_frame:
  "q \<noteq> path \<Longrightarrow> files (snd (create_vpn_script path fs)) q = files fs q"
  unfolding create_vpn_script_def
  by (auto simp: Let_def split: sum.splits if_splits prod.splits
      dest!: makedirs_files write_text_files chmod_executable_files)

lemma map_of_rev_key: "map_of (rev pairs) k = Some v \<Longrightarrow> k \<in> set (map fst pairs)"
  by (drule map_of_SomeD) force

lemma idempotency_checks_configured:
  assumes "config_configured content"
  shows "idempotency_checks content = Inr (True, True)"
proof -
  from assms obtain pairs vals where p: "parse_jsonc content = Inr (JObject pairs)"
    and m: "map_of (rev pairs) (str ''modules-right'') = Some (JArray vals)"
    and v: "JString (str ''custom/vpn'') \<in> set vals"
    and k: "str ''custom/vpn'' \<in> set (map fst pairs)"
    unfolding config_configured_def
    by (auto split: sum.splits json.splits option.splits)
  from m have "str ''modules-right'' \<in> set (map fst pairs)" by (rule map_of_rev_key)
  with p m v k show ?thesis
    unfolding idempotency_checks_def by simp
qed

lemma modify_config_jsonc_configured:
  "files fs path = Some f \<Longrightarrow> config_configured (file_content f) \<Longrightarrow>
   modify_config_jsonc path fs = (Inr False, fs)"
  unfolding modify_config_jsonc_def
  by (simp add: path_exists_def read_text_def idempotency_checks_configured)

lemma modify_style_css_configured:
  "files fs path = Some f \<Longrightarrow> contains (str ''#custom-vpn'') (file_content f) \<Longrightarrow>
   modify_style_css path fs = (Inr False, fs)"
  unfolding modify_style_css_def
  by (simp add: path_exists_def read_text_def)

lemma create_vpn_script_configured:
  "files fs path = Some f \<Longrightarrow> file_content f = get_vpn_script_content \<Longrightarrow>
   create_vpn_script path fs = (Inr False, fs)"
  unfolding create_vpn_script_def
  by (simp add: path_exists_def read_text_def Let_def)

lemma path_distinct:
  "config_path home \<noteq> style_path home" "config_path home \<noteq> script_path home"
  "style_path home \<noteq> script_path home"
  "config_path home @ str ''.bak'' \<noteq> style_path home"
  "config_path home @ str ''.bak'' \<noteq> script_path home"
  "style_path home @ str ''.bak'' \<noteq> config_path home"
  "style_path home @ str ''.bak'' \<noteq> script_path home"
  "script_path home @ str ''.bak'' \<noteq> config_path home"
  "script_path home @ str ''.bak'' \<noteq> style_path home"
  "config_path home @ str ''.bak'' \<noteq> style_path home @ str ''.bak''"
  "config_path home @ str ''.bak'' \<noteq> config_path home"
  "style_path home @ str ''.bak'' \<noteq> style_path home"
  "script_path home @ str ''.bak'' \<noteq> script_path home"
  by (simp_all add: config_path_def style_path_def script_path_def expand_path_def)

lemma backup_inside:
  "join (config_path home @ str ''.bak'') (basename (config_path home))
     = config_path home @ str ''.bak/config.jsonc''"
  "join (style_path home @ str ''.bak'') (basename (style_path home))
     = style_path home @ str ''.bak/style.css''"
proof -
  have c: "rfind (config_path home) 47 = Some (length (home @ str ''/.config/waybar''))"
    by (rule rfind_last [where post = "str ''config.jsonc''"])
      (simp_all add: config_path_def expand_path_def)
  have s: "rfind (style_path home) 47 = Some (length (home @ str ''/.config/waybar''))"
    by (rule rfind_last [where post = "str ''style.css''"])
      (simp_all add: style_path_def expand_path_def)
  have "basename (config_path home) = str ''config.jsonc''"
    unfolding basename_def c by (simp add: config_path_def expand_path_def)
  then show "join (config_path home @ str ''.bak'') (basename (config_path home))
     = config_path home @ str ''.bak/config.jsonc''"
    by (simp add: join_def)
  have "basename (style_path home) = str ''style.css''"
    unfolding basename_def s by (simp add: style_path_def expand_path_def)
  then show "join (style_path home @ str ''.bak'') (basename (style_path home))
     = style_path home @ str ''.bak/style.css''"
    by (simp add: join_def)
qed

lemma path_distinct_inside:
  "config_path home \<noteq> join (style_path home @ str ''.bak'') (basename (style_path home))"
  "config_path home @ str ''.bak'' \<noteq> join (style_path home @ str ''.bak'') (basename (style_path home))"
  "script_path home \<noteq> join (style_path home @ str ''.bak'') (basename (style_path home))"
  "script_path home @ str ''.bak'' \<noteq> join (style_path home @ str ''.bak'') (basename (style_path home))"
  "style_path home \<noteq> join (config_path home @ str ''.bak'') (basename (config_path home))"
  "style_path home @ str ''.bak'' \<noteq> join (config_path home @ str ''.bak'') (basename (config_path home))"
  "script_path home \<noteq> join (config_path home @ str ''.bak'') (basename (config_path home))"
  "script_path home @ str ''.bak'' \<noteq> join (config_path home @ str ''.bak'') (basename (config_path home))"
  unfolding backup_inside
  by (simp_all add: config_path_def style_path_def script_path_def expand_path_def)

definition style_configured :: "pystr \<Rightarrow> bool" where
  "style_configured content \<longleftrightarrow> contains (str ''#custom-vpn'') content"

definition script_configured :: "pystr \<Rightarrow> bool" where
  "script_configured content \<longleftrightarrow> content = get_vpn_script_content"

lemma main_files:
  "files (snd (main home fs)) q =
   files (snd (create_vpn_script (script_path home)
     (snd (modify_style_css (style_path home)
       (snd (modify_config_jsonc (config_path home) fs)))))) q
   \<or> files (snd (main home fs)) q =
     files (snd (modify_style_css (style_path home)
       (snd (modify_config_jsonc (config_path home) fs)))) q
   \<or> files (snd (main home fs)) q = files (snd (modify_config_jsonc (config_path home) fs)) q"
  unfolding main_def
  by (auto split: prod.splits sum.splits)

text \<open>
  Claim C8. A target file whose idempotency conditions already hold is left as it is by
  the run, and no backup of it is made: for the config, \<^verbatim>\<open>custom/vpn\<close> is in the list at
  \<^verbatim>\<open>modules-right\<close> and is a top-level key; for the stylesheet, the selector \<^verbatim>\<open>#custom-vpn\<close>
  occurs in the text; for the script, the text is the generated one. In each case the
  entry of the file (content and mode) after \<open>main\<close> is the entry before it, and so is
  whatever was, or was not, at the path of its backup. This holds whether the run ends
  normally or with an error at another file.
\<close>

theorem configured_files_untouched:
  "(files fs (config_path home) = Some f \<and> config_configured (file_content f) \<longrightarrow>
      files (snd (main home fs)) (config_path home) = Some f
      \<and> files (snd (main home fs)) (config_path home @ str ''.bak'')
          = files fs (config_path home @ str ''.bak''))
   \<and> (files fs (style_path home) = Some g \<and> style_configured (file_content g) \<longrightarrow>
      files (snd (main home fs)) (style_path home) = Some g
      \<and> files (snd (main home fs)) (style_path home @ str ''.bak'')
          = files fs (style_path home @ str ''.bak''))
   \<and> (files fs (script_path home) = Some h \<and> script_configured (file_content h) \<longrightarrow>
      files (snd (main home fs)) (script_path home) = Some h
      \<and> files (snd (main home fs)) (script_path home @ str ''.bak'')
          = files fs (script_path home @ str ''.bak''))"
proof (intro conjI impI)
  let ?c = "config_path home" and ?s = "style_path home" and ?x = "script_path home"
  let ?fs1 = "snd (modify_config_jsonc ?c fs)"
  let ?fs2 = "snd (modify_style_css ?s ?fs1)"
  let ?fs3 = "snd (create_vpn_script ?x ?fs2)"
  note d = path_distinct [of home] path_distinct_inside [of home]
  {
    assume a: "files fs ?c = Some f \<and> config_configured (file_content f)"
    then have 1: "?fs1 = fs" by (simp add: modify_config_jsonc_configured)
    have 2: "files ?fs2 ?c = files fs ?c" "files ?fs2 (?c @ str ''.bak'') = files fs (?c @ str ''.bak'')"
      using d by (simp_all add: 1 modify_style_css_frame)
    have 3: "files ?fs3 ?c = files fs ?c" "files ?fs3 (?c @ str ''.bak'') = files fs (?c @ str ''.bak'')"
      using d 2 by (simp_all add: create_vpn_script_frame)
    from main_files [of home fs ?c] 1 2 3 a
    show "files (snd (main home fs)) ?c = Some f" by auto
    from main_files [of home fs "?c @ str ''.bak''"] 1 2 3
    show "files (snd (main home fs)) (?c @ str ''.bak'') = files fs (?c @ str ''.bak'')" by auto
  }
  {
    assume a: "files fs ?s = Some g \<and> style_configured (file_content g)"
    have 1: "files ?fs1 ?s = files fs ?s" "files ?fs1 (?s @ str ''.bak'') = files fs (?s @ str ''.bak'')"
      using d by (simp_all add: modify_config_jsonc_frame)
    with a have "modify_style_css ?s ?fs1 = (Inr False, ?fs1)"
      by (simp add: modify_style_css_configured style_configured_def)
    then have 2: "?fs2 = ?fs1" by simp
    have 3: "files ?fs3 ?s = files fs ?s" "files ?fs3 (?s @ str ''.bak'') = files fs (?s @ str ''.bak'')"
      using d 1 2 by (simp_all add: create_vpn_script_frame)
    from main_files [of home fs ?s] 1 2 3 a
    show "files (snd (main home fs)) ?s = Some g" by auto
    from main_files [of home fs "?s @ str ''.bak''"] 1 2 3
    show "files (snd (main home fs)) (?s @ str ''.bak'') = files fs (?s @ str ''.bak'')" by auto
  }
  {
    assume a: "files fs ?x = Some h \<and> script_configured (file_content h)"
    have 1: "files ?fs1 ?x = files fs ?x" "files ?fs1 (?x @ str ''.bak'') = files fs (?x @ str ''.bak'')"
      using d by (simp_all add: modify_config_jsonc_frame)
    have 2: "files ?fs2 ?x = files fs ?x" "files ?fs2 (?x @ str ''.bak'') = files fs (?x @ str ''.bak'')"
      using d 1 by (simp_all add: modify_style_css_frame)
    with a have "create_vpn_script ?x ?fs2 = (Inr False, ?fs2)"
      by (simp add: create_vpn_script_configured script_configured_def)
    then have 3: "?fs3 = ?fs2" by simp
    from main_files [of home fs ?x] 1 2 3 a
    show "files (snd (main home fs)) ?x = Some h" by auto
    from main_files [of home fs "?x @ str ''.bak''"] 1 2 3
    show "files (snd (main home fs)) (?x @ str ''.bak'') = files fs (?x @ str ''.bak'')" by auto
  }
qed

definition configured_config :: pystr where
  \<open>configured_config = str ''{"modules-right": ["custom/vpn"], "custom/vpn": {}}''\<close>

definition configured_fs :: filesystem where
  "configured_fs =
     \<lparr>files = [config_path (str ''/h'') \<mapsto> \<lparr>file_content = configured_config, file_mode = 420\<rparr>,
               style_path (str ''/h'') \<mapsto> \<lparr>file_content = str ''#custom-vpn { }'', file_mode = 420\<rparr>,
               script_path (str ''/h'') \<mapsto> \<lparr>file_content = get_vpn_script_content, file_mode = 493\<rparr>],
      dirs = {}, umask = 18\<rparr>"

lemma parse_configured_config:
  "parse_jsonc configured_config =
     Inr (JObject [(str ''modules-right'', JArray [JString (str ''custom/vpn'')]),
                   (str ''custom/vpn'', JObject [])])"
proof -
  have s: "strip_jsonc_comments configured_config = Inr configured_config"
    by (simp add: configured_config_def normalizer_eval)
  have r: "remove_trailing_commas configured_config = configured_config"
    by (simp add: configured_config_def normalizer_eval)
  have j: "json_loads configured_config =
     Inr (JObject [(str ''modules-right'', JArray [JString (str ''custom/vpn'')]),
                   (str ''custom/vpn'', JObject [])])"
    by code_simp
  show ?thesis by (simp add: parse_jsonc_def s r j)
qed

theorem configured_files_untouched_witness:
  "files (snd (main (str ''/h'') configured_fs)) (config_path (str ''/h''))
     = Some \<lparr>file_content = configured_config, file_mode = 420\<rparr>
   \<and> files (snd (main (str ''/h'') configured_fs)) (config_path (str ''/h'') @ str ''.bak'') = None
   \<and> files (snd (main (str ''/h'') configured_fs)) (style_path (str ''/h''))
     = Some \<lparr>file_content = str ''#custom-vpn { }'', file_mode = 420\<rparr>
   \<and> files (snd (main (str ''/h'') configured_fs)) (style_path (str ''/h'') @ str ''.bak'') = None
   \<and> files (snd (main (str ''/h'') configured_fs)) (script_path (str ''/h''))
     = Some \<lparr>file_content = get_vpn_script_content, file_mode = 493\<rparr>
   \<and> files (snd (main (str ''/h'') configured_fs)) (script_path (str ''/h'') @ str ''.bak'') = None"
proof -
  note d = path_distinct [of "str ''/h''"]
  have c: "files configured_fs (config_path (str ''/h''))
      = Some \<lparr>file_content = configured_config, file_mode = 420\<rparr>"
    using d by (simp add: configured_fs_def)
  have s: "files configured_fs (style_path (str ''/h''))
      = Some \<lparr>file_content = str ''#custom-vpn { }'', file_mode = 420\<rparr>"
    using d by (simp add: configured_fs_def)
  have x: "files configured_fs (script_path (str ''/h''))
      = Some \<lparr>file_content = get_vpn_script_content, file_mode = 493\<rparr>"
    by (simp add: configured_fs_def)
  have b: "files configured_fs (config_path (str ''/h'') @ str ''.bak'') = None"
    "files configured_fs (style_path (str ''/h'') @ str ''.bak'') = None"
    "files configured_fs (script_path (str ''/h'') @ str ''.bak'') = None"
    using d by (simp_all add: configured_fs_def)
  have cc: "config_configured configured_config"
    by (simp add: config_configured_def parse_configured_config)
  have sc: "style_configured (str ''#custom-vpn { }'')"
    by (simp add: style_configured_def)
  have xc: "script_configured get_vpn_script_content"
    by (simp add: script_configured_def)
  show ?thesis
    using configured_files_untouched [of configured_fs "str ''/h''"
        "\<lparr>file_content = configured_config, file_mode = 420\<rparr>"
        "\<lparr>file_content = str ''#custom-vpn { }'', file_mode = 420\<rparr>"
        "\<lparr>file_content = get_vpn_script_content, file_mode = 493\<rparr>"]
      c s x b cc sc xc
    by simp
qed

subsection \<open>Backups\<close>

lemma rfind_Some:
  assumes "rfind s c = Some k"
  shows "\<exists>pre post. s = pre @ c # post \<and> c \<notin> set post \<and> k = length pre"
proof -
  from assms have "c \<in> set s" by (auto simp: rfind_def split: if_splits)
  then obtain pre post where d: "s = pre @ c # post" "c \<notin> set post"
    using split_list_last by fastforce
  then have "rfind s c = Some (length pre)" by (intro rfind_last)
  with assms d show ?thesis by auto
qed

lemma basename_no_slash: "47 \<notin> set (basename p)"
proof (cases "rfind p 47")
  case None
  then have "47 \<notin> set p" by (auto simp: rfind_def split: if_splits)
  with None show ?thesis by (simp add: basename_def)
next
  case (Some k)
  then obtain pre post where "p = pre @ 47 # post" "47 \<notin> set post" "k = length pre"
    using rfind_Some by blast
  with Some show ?thesis by (simp add: basename_def)
qed

lemma join_longer: "47 \<notin> set b \<Longrightarrow> length a \<le> length (join a b)"
  by (cases b) (auto simp: join_def)

lemma backup_destination_neq: "backup_destination fs path \<noteq> path"
proof -
  have "length path < length (join (path @ str ''.bak'') (basename path))"
    using join_longer [OF basename_no_slash, of "path @ str ''.bak''" path] by simp
  then have "join (path @ str ''.bak'') (basename path) \<noteq> path" by auto
  then show ?thesis
    by (simp add: backup_destination_def copy_destination_def)
qed

lemma backup_destination_plain:
  "path @ str ''.bak'' \<notin> dirs fs \<Longrightarrow>
   backup_destination fs path = path @ str ''.bak'' \<and> \<not> isdir fs (path @ str ''.bak'')"
  by (simp add: backup_destination_def copy_destination_def isdir_def)

lemma backup_destination_inside:
  "isdir fs (path @ str ''.bak'') \<Longrightarrow>
   backup_destination fs path = join (path @ str ''.bak'') (basename path)"
  by (simp add: backup_destination_def copy_destination_def)

lemma backup_file_Some:
  "files fs path = Some f \<Longrightarrow> \<not> isdir fs (backup_destination fs path) \<Longrightarrow>
   backup_file path fs
     = Inr (path @ str ''.bak'', fs\<lparr>files := (files fs)(backup_destination fs path \<mapsto> f)\<rparr>)"
  using backup_destination_neq [of fs path]
  by (simp add: backup_file_def copy2_def backup_destination_def Let_def)

lemma modify_config_jsonc_apply:
  assumes f: "files fs path = Some f"
    and ch: "idempotency_checks (file_content f) = Inr (a, b)" and n: "\<not> (a \<and> b)"
    and nd: "\<not> isdir fs (backup_destination fs path)"
    and i1: "(if \<not> a then insert_module (file_content f) else Inr (file_content f)) = Inr c1"
    and i2: "(if \<not> b then insert_definition c1 else Inr c1) = Inr c2"
  shows "fst (modify_config_jsonc path fs) = Inr True
    \<and> files (snd (modify_config_jsonc path fs)) path = Some (f\<lparr>file_content := c2\<rparr>)
    \<and> files (snd (modify_config_jsonc path fs)) (backup_destination fs path) = Some f"
proof -
  let ?d = "backup_destination fs path"
  have ne: "?d \<noteq> path" by (rule backup_destination_neq)
  have w: "write_text path c2 (fs\<lparr>files := (files fs)(?d \<mapsto> f)\<rparr>)
      = Inr (fs\<lparr>files := (files fs)(?d \<mapsto> f, path \<mapsto> f\<lparr>file_content := c2\<rparr>)\<rparr>)"
    using f ne by (simp add: write_text_def)
  have m: "modify_config_jsonc path fs
      = (Inr True, fs\<lparr>files := (files fs)(?d \<mapsto> f, path \<mapsto> f\<lparr>file_content := c2\<rparr>)\<rparr>)"
    unfolding modify_config_jsonc_def
    using n w backup_file_Some [OF f nd]
    by (simp add: path_exists_def read_text_def f ch i1 i2 del: fun_upd_apply)
  show ?thesis using ne by (simp add: m)
qed

lemma modify_config_jsonc_backup:
  assumes f: "files fs path = Some f"
    and c: "idempotency_checks (file_content f) = Inr (a, b)" and n: "\<not> (a \<and> b)"
    and nd: "\<not> isdir fs (backup_destination fs path)"
  shows "files (snd (modify_config_jsonc path fs)) (backup_destination fs path) = Some f"
proof -
  have ne: "backup_destination fs path \<noteq> path" by (rule backup_destination_neq)
  show ?thesis
    unfolding modify_config_jsonc_def
    using f c n ne backup_file_Some [OF f nd]
    by (auto simp: path_exists_def read_text_def Let_def split: sum.splits dest!: write_text_files)
qed

lemma modify_style_css_backup:
  assumes f: "files fs path = Some f"
    and n: "\<not> contains (str ''#custom-vpn'') (file_content f)"
    and nd: "\<not> isdir fs (backup_destination fs path)"
  shows "fst (modify_style_css path fs) = Inr True
    \<and> files (snd (modify_style_css path fs)) (backup_destination fs path) = Some f
    \<and> files (snd (modify_style_css path fs)) path
        = Some (f\<lparr>file_content := file_content f @ css_block\<rparr>)"
proof -
  have ne: "backup_destination fs path \<noteq> path" by (rule backup_destination_neq)
  show ?thesis
    unfolding modify_style_css_def
    using f n ne backup_file_Some [OF f nd]
    by (simp add: path_exists_def read_text_def append_text_def)
qed

lemma create_vpn_script_no_backup:
  "files (snd (create_vpn_script path fs)) (path @ str ''.bak'') = files fs (path @ str ''.bak'')"
  "files (snd (create_vpn_script path fs)) (backup_destination fs path)
     = files fs (backup_destination fs path)"
  using backup_destination_neq [of fs path] by (simp_all add: create_vpn_script_frame)

text \<open>
  Claim C7, as amended. Module registration and stylesheet append, once they have found
  that a change is needed, copy the file as it was before they write. The copy is at
  \<open>backup_destination\<close>: the path with \<^verbatim>\<open>.bak\<close> added, or, when that path is an existing
  directory, the file of the same name inside it; where that place is itself a directory
  the copy raises, and the operations are taken where it is not. After
  \<open>modify_config_jsonc\<close> the copy holds the prior file whenever the two flags are not both
  set (also when the operation then fails for want of an anchor), and after
  \<open>modify_style_css\<close> it holds the prior file while the file itself has the rule appended.
  Script materialization makes no backup: whatever is at the \<^verbatim>\<open>.bak\<close> path of the script,
  or inside it, stays as it was.
\<close>

theorem config_and_style_backup:
  "(files fs path = Some f \<and> idempotency_checks (file_content f) = Inr (a, b) \<and> \<not> (a \<and> b)
      \<and> \<not> isdir fs (backup_destination fs path) \<longrightarrow>
      files (snd (modify_config_jsonc path fs)) (backup_destination fs path) = Some f)
   \<and> (files fs path = Some f \<and> \<not> contains (str ''#custom-vpn'') (file_content f)
      \<and> \<not> isdir fs (backup_destination fs path) \<longrightarrow>
      fst (modify_style_css path fs) = Inr True
      \<and> files (snd (modify_style_css path fs)) (backup_destination fs path) = Some f
      \<and> files (snd (modify_style_css path fs)) path
          = Some (f\<lparr>file_content := file_content f @ css_block\<rparr>))
   \<and> (path @ str ''.bak'' \<notin> dirs fs \<longrightarrow>
      backup_destination fs path = path @ str ''.bak'' \<and> \<not> isdir fs (path @ str ''.bak''))
   \<and> (isdir fs (path @ str ''.bak'') \<longrightarrow>
      backup_destination fs path = join (path @ str ''.bak'') (basename path))
   \<and> files (snd (create_vpn_script path fs)) (path @ str ''.bak'') = files fs (path @ str ''.bak'')
   \<and> files (snd (create_vpn_script path fs)) (backup_destination fs path)
       = files fs (backup_destination fs path)"
proof (intro conjI impI)
  assume "files fs path = Some f \<and> idempotency_checks (file_content f) = Inr (a, b) \<and> \<not> (a \<and> b)
      \<and> \<not> isdir fs (backup_destination fs path)"
  then show "files (snd (modify_config_jsonc path fs)) (backup_destination fs path) = Some f"
    by (elim conjE) (rule modify_config_jsonc_backup; assumption)
next
  assume h: "files fs path = Some f \<and> \<not> contains (str ''#custom-vpn'') (file_content f)
      \<and> \<not> isdir fs (backup_destination fs path)"
  then have r: "fst (modify_style_css path fs) = Inr True
    \<and> files (snd (modify_style_css path fs)) (backup_destination fs path) = Some f
    \<and> files (snd (modify_style_css path fs)) path
        = Some (f\<lparr>file_content := file_content f @ css_block\<rparr>)"
    by (elim conjE) (rule modify_style_css_backup; assumption)
  from r show "fst (modify_style_css path fs) = Inr True" by (rule conjunct1)
  from r show "files (snd (modify_style_css path fs)) (backup_destination fs path) = Some f"
    by (elim conjE)
  from r show "files (snd (modify_style_css path fs)) path
        = Some (f\<lparr>file_content := file_content f @ css_block\<rparr>)"
    by (elim conjE)
next
  assume h: "path @ str ''.bak'' \<notin> dirs fs"
  from backup_destination_plain [OF h]
  show "backup_destination fs path = path @ str ''.bak''" by (rule conjunct1)
  from backup_destination_plain [OF h]
  show "\<not> isdir fs (path @ str ''.bak'')" by (rule conjunct2)
next
  assume "isdir fs (path @ str ''.bak'')"
  then show "backup_destination fs path = join (path @ str ''.bak'') (basename path)"
    by (rule backup_destination_inside)
next
  show "files (snd (create_vpn_script path fs)) (path @ str ''.bak'') = files fs (path @ str ''.bak'')"
    by (rule create_vpn_script_no_backup)
next
  show "files (snd (create_vpn_script path fs)) (backup_destination fs path)
       = files fs (backup_destination fs path)"
    by (rule create_vpn_script_no_backup)
qed

definition stale_script_fs :: filesystem where
  "stale_script_fs =
     \<lparr>files = [str ''/s/vpn-toggle.sh'' \<mapsto> \<lparr>file_content = str ''#!/bin/sh'', file_mode = 420\<rparr>],
      dirs = {str ''/s''}, umask = 18\<rparr>"

lemma dirname_script: "dirname (str ''/s/vpn-toggle.sh'') = str ''/s''"
  by (simp add: dirname_def rfind_def Let_def)

text \<open>
  Claim C7 as stated fails for the third operation. With a script file of another content
  in place, \<open>create_vpn_script\<close> finds that a change is needed, overwrites the file and
  returns \<^verbatim>\<open>True\<close>; no \<^verbatim>\<open>.bak\<close> file exists afterwards, so the prior content is lost.
\<close>

theorem create_vpn_script_overwrites_without_backup:
  "files stale_script_fs (str ''/s/vpn-toggle.sh'')
     = Some \<lparr>file_content = str ''#!/bin/sh'', file_mode = 420\<rparr>
   \<and> fst (create_vpn_script (str ''/s/vpn-toggle.sh'') stale_script_fs) = Inr True
   \<and> files (snd (create_vpn_script (str ''/s/vpn-toggle.sh'') stale_script_fs)) (str ''/s/vpn-toggle.sh'')
     = Some \<lparr>file_content = get_vpn_script_content, file_mode = 493\<rparr>
   \<and> files (snd (create_vpn_script (str ''/s/vpn-toggle.sh'') stale_script_fs))
       (str ''/s/vpn-toggle.sh'' @ str ''.bak'') = None"
proof -
  have ne: "str ''#!/bin/sh'' \<noteq> get_vpn_script_content"
    by (simp add: get_vpn_script_content_def)
  show ?thesis
    using ne dirname_script
    by (simp add: create_vpn_script_def stale_script_fs_def path_exists_def
        read_text_def write_text_def chmod_executable_def Let_def)
qed

definition bare_config :: pystr where
  \<open>bare_config = str ''{"modules-right": []}''\<close>

definition bare_fs :: filesystem where
  "bare_fs =
     \<lparr>files = [str ''/w/config.jsonc'' \<mapsto> \<lparr>file_content = bare_config, file_mode = 420\<rparr>,
               str ''/w/style.css'' \<mapsto> \<lparr>file_content = str ''* { }'', file_mode = 420\<rparr>],
      dirs = {str ''/w''}, umask = 18\<rparr>"

lemma parse_bare_config:
  "parse_jsonc bare_config = Inr (JObject [(str ''modules-right'', JArray [])])"
proof -
  have s: "strip_jsonc_comments bare_config = Inr bare_config"
    by (simp add: bare_config_def normalizer_eval)
  have r: "remove_trailing_commas bare_config = bare_config"
    by (simp add: bare_config_def normalizer_eval)
  have j: "json_loads bare_config = Inr (JObject [(str ''modules-right'', JArray [])])"
    by code_simp
  show ?thesis by (simp add: parse_jsonc_def s r j)
qed

lemma checks_bare_config: "idempotency_checks bare_config = Inr (False, False)"
  by (simp add: idempotency_checks_def parse_bare_config)

definition bak_dir_fs :: filesystem where
  "bak_dir_fs =
     \<lparr>files = [str ''/w/style.css'' \<mapsto> \<lparr>file_content = str ''* { }'', file_mode = 420\<rparr>],
      dirs = {str ''/w'', str ''/w/style.css.bak''}, umask = 18\<rparr>"

theorem config_and_style_backup_witness:
  "files (snd (modify_config_jsonc (str ''/w/config.jsonc'') bare_fs)) (str ''/w/config.jsonc'' @ str ''.bak'')
     = Some \<lparr>file_content = bare_config, file_mode = 420\<rparr>
   \<and> fst (modify_style_css (str ''/w/style.css'') bare_fs) = Inr True
   \<and> files (snd (modify_style_css (str ''/w/style.css'') bare_fs)) (str ''/w/style.css'' @ str ''.bak'')
     = Some \<lparr>file_content = str ''* { }'', file_mode = 420\<rparr>
   \<and> files (snd (modify_style_css (str ''/w/style.css'') bare_fs)) (str ''/w/style.css'')
     = Some \<lparr>file_content = str ''* { }'' @ css_block, file_mode = 420\<rparr>
   \<and> files (snd (create_vpn_script (str ''/w/scripts/vpn-toggle.sh'') bare_fs))
       (str ''/w/scripts/vpn-toggle.sh'' @ str ''.bak'') = None
   \<and> fst (modify_style_css (str ''/w/style.css'') bak_dir_fs) = Inr True
   \<and> files (snd (modify_style_css (str ''/w/style.css'') bak_dir_fs)) (str ''/w/style.css.bak/style.css'')
     = Some \<lparr>file_content = str ''* { }'', file_mode = 420\<rparr>"
proof -
  have c: "files bare_fs (str ''/w/config.jsonc'') = Some \<lparr>file_content = bare_config, file_mode = 420\<rparr>"
    by (simp add: bare_fs_def)
  have s: "files bare_fs (str ''/w/style.css'') = Some \<lparr>file_content = str ''* { }'', file_mode = 420\<rparr>"
    by (simp add: bare_fs_def)
  have n: "\<not> contains (str ''#custom-vpn'') (str ''* { }'')"
    by simp
  have b: "files bare_fs (str ''/w/scripts/vpn-toggle.sh'' @ str ''.bak'') = None"
    by (simp add: bare_fs_def)
  have d: "backup_destination bare_fs (str ''/w/config.jsonc'') = str ''/w/config.jsonc'' @ str ''.bak''"
    "\<not> isdir bare_fs (str ''/w/config.jsonc'' @ str ''.bak'')"
    "backup_destination bare_fs (str ''/w/style.css'') = str ''/w/style.css'' @ str ''.bak''"
    "\<not> isdir bare_fs (str ''/w/style.css'' @ str ''.bak'')"
    by (simp_all add: bare_fs_def backup_destination_def copy_destination_def isdir_def)
  have s': "files bak_dir_fs (str ''/w/style.css'') = Some \<lparr>file_content = str ''* { }'', file_mode = 420\<rparr>"
    by (simp add: bak_dir_fs_def)
  have i: "isdir bak_dir_fs (str ''/w/style.css'' @ str ''.bak'')"
    by (simp add: bak_dir_fs_def isdir_def)
  have j: "join (str ''/w/style.css'' @ str ''.bak'') (basename (str ''/w/style.css''))
      = str ''/w/style.css.bak/style.css''"
    by (simp add: join_def basename_def rfind_def)
  have k: "\<not> isdir bak_dir_fs (str ''/w/style.css.bak/style.css'')"
    by (simp add: bak_dir_fs_def isdir_def)
  have l: "backup_destination bak_dir_fs (str ''/w/style.css'') = str ''/w/style.css.bak/style.css''"
    using i j by (simp add: backup_destination_def copy_destination_def)
  have 1: "files (snd (modify_config_jsonc (str ''/w/config.jsonc'') bare_fs))
      (str ''/w/config.jsonc'' @ str ''.bak'') = Some \<lparr>file_content = bare_config, file_mode = 420\<rparr>"
    using config_and_style_backup [of bare_fs "str ''/w/config.jsonc''"
        "\<lparr>file_content = bare_config, file_mode = 420\<rparr>" False False]
      c d checks_bare_config
    by simp
  have 2: "fst (modify_style_css (str ''/w/style.css'') bare_fs) = Inr True
    \<and> files (snd (modify_style_css (str ''/w/style.css'') bare_fs)) (str ''/w/style.css'' @ str ''.bak'')
      = Some \<lparr>file_content = str ''* { }'', file_mode = 420\<rparr>
    \<and> files (snd (modify_style_css (str ''/w/style.css'') bare_fs)) (str ''/w/style.css'')
      = Some \<lparr>file_content = str ''* { }'' @ css_block, file_mode = 420\<rparr>"
    using config_and_style_backup [of bare_fs "str ''/w/style.css''"
        "\<lparr>file_content = str ''* { }'', file_mode = 420\<rparr>" False False]
      s d n
    by simp
  have 3: "files (snd (create_vpn_script (str ''/w/scripts/vpn-toggle.sh'') bare_fs))
       (str ''/w/scripts/vpn-toggle.sh'' @ str ''.bak'') = None"
    using config_and_style_backup [of bare_fs "str ''/w/scripts/vpn-toggle.sh''"
        "\<lparr>file_content = bare_config, file_mode = 420\<rparr>" False False] b
    by simp
  have 4: "fst (modify_style_css (str ''/w/style.css'') bak_dir_fs) = Inr True
    \<and> files (snd (modify_style_css (str ''/w/style.css'') bak_dir_fs)) (str ''/w/style.css.bak/style.css'')
      = Some \<lparr>file_content = str ''* { }'', file_mode = 420\<rparr>"
    using config_and_style_backup [of bak_dir_fs "str ''/w/style.css''"
        "\<lparr>file_content = str ''* { }'', file_mode = 420\<rparr>" False False]
      s' k l n
    by simp
  show ?thesis using 1 2 3 4 by simp
qed

subsection \<open>Preconditions of operation A\<close>

lemma modify_config_jsonc_checks_error:
  "files fs path = Some f \<Longrightarrow> idempotency_checks (file_content f) = Inl e \<Longrightarrow>
   modify_config_jsonc path fs = (Inl e, fs)"
  by (simp add: modify_config_jsonc_def path_exists_def read_text_def)

text \<open>
  Claim C4, as amended. Operation A ends the run with \<open>MissingFileError\<close> when the config
  file is absent, and with \<open>MissingFieldError\<close> when the decoded top-level object has no
  key \<^verbatim>\<open>modules-right\<close>; in both cases nothing is written. The value at \<^verbatim>\<open>modules-right\<close> is
  never tested for being a list: \<^verbatim>\<open>null\<close>, a boolean or a number there ends the run with
  the uncaught \<open>TypeError\<close> of \<^verbatim>\<open>in\<close>, and a string there is accepted and searched for
  the substring \<^verbatim>\<open>custom/vpn\<close>.
\<close>

theorem modify_config_jsonc_preconditions:
  "(\<not> path_exists fs path \<longrightarrow> modify_config_jsonc path fs = (Inl MissingFileError, fs))
   \<and> (files fs path = Some f \<and> parse_jsonc (file_content f) = Inr (JObject pairs)
        \<and> str ''modules-right'' \<notin> set (map fst pairs) \<longrightarrow>
      modify_config_jsonc path fs = (Inl MissingFieldError, fs))
   \<and> (files fs path = Some f \<and> parse_jsonc (file_content f) = Inr (JObject pairs)
        \<and> map_of (rev pairs) (str ''modules-right'') = Some v
        \<and> (v = JNull \<or> (\<exists>b. v = JBool b) \<or> (\<exists>n. v = JNumber n)) \<longrightarrow>
      modify_config_jsonc path fs = (Inl TypeError, fs))
   \<and> (parse_jsonc content = Inr (JObject pairs)
        \<and> map_of (rev pairs) (str ''modules-right'') = Some (JString t) \<longrightarrow>
      idempotency_checks content
        = Inr (contains (str ''custom/vpn'') t, str ''custom/vpn'' \<in> set (map fst pairs)))"
proof (intro conjI impI)
  assume "\<not> path_exists fs path"
  then show "modify_config_jsonc path fs = (Inl MissingFileError, fs)"
    by (simp add: modify_config_jsonc_def)
next
  assume a: "files fs path = Some f \<and> parse_jsonc (file_content f) = Inr (JObject pairs)
    \<and> str ''modules-right'' \<notin> set (map fst pairs)"
  then have "idempotency_checks (file_content f) = Inl MissingFieldError"
    by (simp add: idempotency_checks_def)
  with a show "modify_config_jsonc path fs = (Inl MissingFieldError, fs)"
    by (simp add: modify_config_jsonc_checks_error)
next
  assume a: "files fs path = Some f \<and> parse_jsonc (file_content f) = Inr (JObject pairs)
    \<and> map_of (rev pairs) (str ''modules-right'') = Some v
    \<and> (v = JNull \<or> (\<exists>b. v = JBool b) \<or> (\<exists>n. v = JNumber n))"
  then have k: "str ''modules-right'' \<in> set (map fst pairs)"
    using map_of_rev_key [of pairs "str ''modules-right''" v] by simp
  from a have "py_in (str ''custom/vpn'') v = Inl TypeError" by auto
  with a k have "idempotency_checks (file_content f) = Inl TypeError"
    by (simp add: idempotency_checks_def)
  with a show "modify_config_jsonc path fs = (Inl TypeError, fs)"
    by (simp add: modify_config_jsonc_checks_error)
next
  assume a: "parse_jsonc content = Inr (JObject pairs)
    \<and> map_of (rev pairs) (str ''modules-right'') = Some (JString t)"
  then have k: "str ''modules-right'' \<in> set (map fst pairs)"
    using map_of_rev_key [of pairs "str ''modules-right''" "JString t"] by simp
  with a show "idempotency_checks content
      = Inr (contains (str ''custom/vpn'') t, str ''custom/vpn'' \<in> set (map fst pairs))"
    by (simp add: idempotency_checks_def)
qed

definition string_valued_config :: pystr where
  \<open>string_valued_config = str ''{"modules-right": "custom/vpn", "custom/vpn": {}}''\<close>

definition string_valued_fs :: filesystem where
  "string_valued_fs =
     \<lparr>files = [str ''/w/config.jsonc'' \<mapsto> \<lparr>file_content = string_valued_config, file_mode = 420\<rparr>],
      dirs = {str ''/w''}, umask = 18\<rparr>"

lemma parse_string_valued_config:
  "parse_jsonc string_valued_config =
     Inr (JObject [(str ''modules-right'', JString (str ''custom/vpn'')), (str ''custom/vpn'', JObject [])])"
proof -
  have s: "strip_jsonc_comments string_valued_config = Inr string_valued_config"
    by (simp add: string_valued_config_def normalizer_eval)
  have r: "remove_trailing_commas string_valued_config = string_valued_config"
    by (simp add: string_valued_config_def normalizer_eval)
  have j: "json_loads string_valued_config =
     Inr (JObject [(str ''modules-right'', JString (str ''custom/vpn'')), (str ''custom/vpn'', JObject [])])"
    by code_simp
  show ?thesis by (simp add: parse_jsonc_def s r j)
qed

text \<open>
  Claim C4 as stated fails where the value at \<^verbatim>\<open>modules-right\<close> is not a list: with the
  string \<^verbatim>\<open>"custom/vpn"\<close> there, and the key \<^verbatim>\<open>custom/vpn\<close> present, the operation reports
  "already configured" and returns \<^verbatim>\<open>False\<close> instead of failing.
\<close>

theorem modules_right_string_accepted:
  "parse_jsonc string_valued_config =
     Inr (JObject [(str ''modules-right'', JString (str ''custom/vpn'')), (str ''custom/vpn'', JObject [])])
   \<and> modify_config_jsonc (str ''/w/config.jsonc'') string_valued_fs = (Inr False, string_valued_fs)"
proof -
  have "idempotency_checks string_valued_config = Inr (True, True)"
    by (simp add: idempotency_checks_def parse_string_valued_config)
  then show ?thesis
    by (simp add: parse_string_valued_config modify_config_jsonc_def string_valued_fs_def
        path_exists_def read_text_def)
qed

definition empty_fs :: filesystem where
  "empty_fs = \<lparr>files = Map.empty, dirs = {}, umask = 18\<rparr>"

definition no_field_config :: pystr where
  \<open>no_field_config = str ''{"modules-left": [], "modules-right-x": [1]}''\<close>

definition null_field_config :: pystr where
  \<open>null_field_config = str ''{"modules-right": null}''\<close>

lemma parse_no_field_config:
  "parse_jsonc no_field_config =
     Inr (JObject [(str ''modules-left'', JArray []), (str ''modules-right-x'', JArray [JNumber (str ''1'')])])"
proof -
  have s: "strip_jsonc_comments no_field_config = Inr no_field_config"
    by (simp add: no_field_config_def normalizer_eval)
  have r: "remove_trailing_commas no_field_config = no_field_config"
    by (simp add: no_field_config_def normalizer_eval)
  have j: "json_loads no_field_config =
     Inr (JObject [(str ''modules-left'', JArray []), (str ''modules-right-x'', JArray [JNumber (str ''1'')])])"
    by code_simp
  show ?thesis by (simp add: parse_jsonc_def s r j)
qed

lemma parse_null_field_config:
  "parse_jsonc null_field_config = Inr (JObject [(str ''modules-right'', JNull)])"
proof -
  have s: "strip_jsonc_comments null_field_config = Inr null_field_config"
    by (simp add: null_field_config_def normalizer_eval)
  have r: "remove_trailing_commas null_field_config = null_field_config"
    by (simp add: null_field_config_def normalizer_eval)
  have j: "json_loads null_field_config = Inr (JObject [(str ''modules-right'', JNull)])"
    by code_simp
  show ?thesis by (simp add: parse_jsonc_def s r j)
qed

theorem modify_config_jsonc_preconditions_witness:
  "modify_config_jsonc (str ''/w/config.jsonc'') empty_fs = (Inl MissingFileError, empty_fs)
   \<and> modify_config_jsonc (str ''/w/c'')
        (empty_fs\<lparr>files := [str ''/w/c'' \<mapsto> \<lparr>file_content = no_field_config, file_mode = 420\<rparr>]\<rparr>)
      = (Inl MissingFieldError,
         empty_fs\<lparr>files := [str ''/w/c'' \<mapsto> \<lparr>file_content = no_field_config, file_mode = 420\<rparr>]\<rparr>)
   \<and> modify_config_jsonc (str ''/w/c'')
        (empty_fs\<lparr>files := [str ''/w/c'' \<mapsto> \<lparr>file_content = null_field_config, file_mode = 420\<rparr>]\<rparr>)
      = (Inl TypeError,
         empty_fs\<lparr>files := [str ''/w/c'' \<mapsto> \<lparr>file_content = null_field_config, file_mode = 420\<rparr>]\<rparr>)
   \<and> idempotency_checks string_valued_config = Inr (True, True)"
proof -
  have e: "\<not> path_exists empty_fs (str ''/w/config.jsonc'')"
    by (simp add: path_exists_def empty_fs_def)
  show ?thesis
    using e
      modify_config_jsonc_preconditions [of empty_fs "str ''/w/config.jsonc''"]
      modify_config_jsonc_preconditions [of
        "empty_fs\<lparr>files := [str ''/w/c'' \<mapsto> \<lparr>file_content = no_field_config, file_mode = 420\<rparr>]\<rparr>"
        "str ''/w/c''" "\<lparr>file_content = no_field_config, file_mode = 420\<rparr>"
        "[(str ''modules-left'', JArray []), (str ''modules-right-x'', JArray [JNumber (str ''1'')])]"]
      modify_config_jsonc_preconditions [of
        "empty_fs\<lparr>files := [str ''/w/c'' \<mapsto> \<lparr>file_content = null_field_config, file_mode = 420\<rparr>]\<rparr>"
        "str ''/w/c''" "\<lparr>file_content = null_field_config, file_mode = 420\<rparr>"
        "[(str ''modules-right'', JNull)]" JNull]
      modify_config_jsonc_preconditions [of _ _ _
        "[(str ''modules-right'', JString (str ''custom/vpn'')), (str ''custom/vpn'', JObject [])]"
        _ string_valued_config "str ''custom/vpn''"]
      parse_no_field_config parse_null_field_config parse_string_valued_config
    by simp
qed

subsection \<open>Where the module is inserted\<close>

















lemmas pattern_eval = tray_pattern_def modules_pattern_def match_lit_def is_space_def

















subsection \<open>Running the patch twice\<close>

lemma backup_file_dirs: "backup_file path fs = Inr (bp, fs1) \<Longrightarrow> dirs fs1 = dirs fs"
  by (auto simp: backup_file_def copy2_def Let_def split: option.splits if_splits sum.splits)

lemma write_text_dirs: "write_text path t fs = Inr fs' \<Longrightarrow> dirs fs' = dirs fs"
  by (auto simp: write_text_def split: option.splits if_splits)

lemma append_text_dirs: "append_text path t fs = Inr fs' \<Longrightarrow> dirs fs' = dirs fs"
  by (auto simp: append_text_def split: option.splits if_splits)

lemma chmod_executable_dirs: "chmod_executable path fs = Inr fs' \<Longrightarrow> dirs fs' = dirs fs"
  by (auto simp: chmod_executable_def split: option.splits if_splits)

lemma makedirs_dirs: "makedirs d fs = Inr fs' \<Longrightarrow> dirs fs' = insert d (dirs fs)"
  by (auto simp: makedirs_def split: if_splits)

lemma modify_config_jsonc_dirs: "dirs (snd (modify_config_jsonc path fs)) = dirs fs"
  unfolding modify_config_jsonc_def
  by (auto simp: Let_def split: sum.splits if_splits prod.splits
      dest!: backup_file_dirs write_text_dirs)

lemma modify_style_css_dirs: "dirs (snd (modify_style_css path fs)) = dirs fs"
  unfolding modify_style_css_def
  by (auto simp: Let_def split: sum.splits if_splits prod.splits
      dest!: backup_file_dirs append_text_dirs)

lemma create_vpn_script_dirs:
  "q \<in> dirs (snd (create_vpn_script path fs)) \<Longrightarrow> q \<in> dirs fs \<or> q = dirname path"
  unfolding create_vpn_script_def
  by (auto simp: Let_def split: sum.splits if_splits prod.splits
      dest!: makedirs_dirs write_text_dirs chmod_executable_dirs)

lemma create_vpn_script_new:
  assumes "files fs path = None" "path \<notin> dirs fs" "dirname path \<noteq> path" "dirname path \<noteq> []"
  shows "fst (create_vpn_script path fs) = Inr True
    \<and> map_option file_content (files (snd (create_vpn_script path fs)) path)
        = Some get_vpn_script_content"
  using assms
  by (simp add: create_vpn_script_def Let_def path_exists_def makedirs_def write_text_def
      chmod_executable_def)

lemma main_result:
  assumes "fst (modify_config_jsonc (config_path home) fs) = Inr a"
    and "fst (modify_style_css (style_path home) (snd (modify_config_jsonc (config_path home) fs))) = Inr b"
    and "fst (create_vpn_script (script_path home)
          (snd (modify_style_css (style_path home) (snd (modify_config_jsonc (config_path home) fs)))))
        = Inr c"
  shows "main home fs = (Inr (a, b, c),
    snd (create_vpn_script (script_path home)
          (snd (modify_style_css (style_path home) (snd (modify_config_jsonc (config_path home) fs))))))"
  using assms unfolding main_def
  by (auto split: prod.splits sum.splits)

text \<open>
  A config that the first run changes and the second run changes again, the texts after
  each run, and a file system with this config, a stylesheet and no script.
\<close>

definition left_tray_config :: pystr where
  \<open>left_tray_config =
     str ''{"modules-left": ["group/tray-expander", "x"], "modules-right": ["a"]}''\<close>

definition module_inserted :: pystr where
  \<open>module_inserted =
     str ''{"modules-left": ["group/tray-expander",\<newline>    "custom/vpn", "x"], "modules-right": ["a"]}''\<close>

definition user_home :: pystr where
  "user_home = str ''/h''"

definition patched_once :: pystr where
  \<open>patched_once =
     str ''{"modules-left": ["group/tray-expander",\<newline>    "custom/vpn", "x"], "modules-right": ["a"],''
     @ vpn_module_text @ str ''\<newline>}''\<close>

definition patched_twice :: pystr where
  \<open>patched_twice =
     str ''{"modules-left": ["group/tray-expander",\<newline>    "custom/vpn",\<newline>    "custom/vpn", "x"], "modules-right": ["a"],''
     @ vpn_module_text @ str ''\<newline>}''\<close>

definition left_tray_fs :: filesystem where
  "left_tray_fs =
     \<lparr>files = [config_path user_home \<mapsto> \<lparr>file_content = left_tray_config, file_mode = 420\<rparr>,
               style_path user_home \<mapsto> \<lparr>file_content = str ''* { }'', file_mode = 420\<rparr>],
      dirs = {str ''/h/.config/waybar''}, umask = 18\<rparr>"

lemma checks_left_tray_config: "idempotency_checks left_tray_config = Inr (False, False)"
proof -
  have s: "strip_jsonc_comments left_tray_config = Inr left_tray_config"
    by (simp add: left_tray_config_def normalizer_eval)
  have r: "remove_trailing_commas left_tray_config = left_tray_config"
    by (simp add: left_tray_config_def normalizer_eval)
  have j: "json_loads left_tray_config =
     Inr (JObject [(str ''modules-left'', JArray [JString (str ''group/tray-expander''), JString (str ''x'')]),
                   (str ''modules-right'', JArray [JString (str ''a'')])])"
    by code_simp
  have "parse_jsonc left_tray_config =
     Inr (JObject [(str ''modules-left'', JArray [JString (str ''group/tray-expander''), JString (str ''x'')]),
                   (str ''modules-right'', JArray [JString (str ''a'')])])"
    by (simp add: parse_jsonc_def s r j)
  then show ?thesis by (simp add: idempotency_checks_def)
qed

lemma checks_patched_once: "idempotency_checks patched_once = Inr (False, True)"
proof -
  have s: "strip_jsonc_comments patched_once = Inr patched_once"
    by (simp add: patched_once_def vpn_module_text_def normalizer_eval)
  have r: "remove_trailing_commas patched_once = patched_once"
    by (simp add: patched_once_def vpn_module_text_def normalizer_eval)
  have j: "json_loads patched_once =
     Inr (JObject [(str ''modules-left'', JArray [JString (str ''group/tray-expander''),
                      JString (str ''custom/vpn''), JString (str ''x'')]),
                   (str ''modules-right'', JArray [JString (str ''a'')]),
                   (str ''custom/vpn'', JObject [(str ''format'', JString (str ''{}'')),
                      (str ''return-type'', JString (str ''json'')),
                      (str ''exec'', JString (str ''~/.config/waybar/scripts/vpn-toggle.sh'')),
                      (str ''on-click'', JString (str ''~/.config/waybar/scripts/vpn-toggle.sh toggle'')),
                      (str ''interval'', JNumber (str ''5''))])])"
    by code_simp
  have "parse_jsonc patched_once =
     Inr (JObject [(str ''modules-left'', JArray [JString (str ''group/tray-expander''),
                      JString (str ''custom/vpn''), JString (str ''x'')]),
                   (str ''modules-right'', JArray [JString (str ''a'')]),
                   (str ''custom/vpn'', JObject [(str ''format'', JString (str ''{}'')),
                      (str ''return-type'', JString (str ''json'')),
                      (str ''exec'', JString (str ''~/.config/waybar/scripts/vpn-toggle.sh'')),
                      (str ''on-click'', JString (str ''~/.config/waybar/scripts/vpn-toggle.sh toggle'')),
                      (str ''interval'', JNumber (str ''5''))])])"
    by (simp add: parse_jsonc_def s r j)
  then show ?thesis by (simp add: idempotency_checks_def)
qed

lemma first_patch:
  "insert_module left_tray_config = Inr module_inserted"
  "insert_definition module_inserted = Inr patched_once"
  by (simp_all add: left_tray_config_def module_inserted_def patched_once_def insert_module_def
      insert_definition_def pattern_eval rfind_def rstrip_def endswith_def Let_def)

lemma second_patch: "insert_module patched_once = Inr patched_twice"
  by (simp add: patched_once_def patched_twice_def insert_module_def pattern_eval)

lemma patched_differ: "patched_once \<noteq> patched_twice"
  by (simp add: patched_once_def patched_twice_def)

lemma script_path_facts:
  "dirname (script_path user_home) \<noteq> script_path user_home"
  "dirname (script_path user_home) \<noteq> []"
  "script_path user_home \<notin> dirs left_tray_fs"
  "config_path user_home @ str ''.bak'' \<noteq> dirname (script_path user_home)"
  "config_path user_home @ str ''.bak'' \<notin> dirs left_tray_fs"
  "style_path user_home @ str ''.bak'' \<notin> dirs left_tray_fs"
  by (simp_all add: left_tray_fs_def user_home_def script_path_def config_path_def style_path_def
      expand_path_def dirname_def rfind_def Let_def)

text \<open>
  Claim C2 does not hold of the code. In \<open>left_tray_config\<close> the literal
  \<^verbatim>\<open>"group/tray-expander",\<close> stands in \<^verbatim>\<open>modules-left\<close>. The first run inserts \<^verbatim>\<open>"custom/vpn",\<close>
  after it, that is into \<^verbatim>\<open>modules-left\<close>, and adds the definition. On the second run
  \<^verbatim>\<open>custom/vpn\<close> is still not in \<^verbatim>\<open>modules-right\<close>, so the run backs the config up again
  (over the first backup), inserts the entry a second time, writes the file and reports
  a change, while the module docstring says the script is idempotent.
\<close>

theorem second_run_patches_again:
  "fst (main user_home left_tray_fs) = Inr (True, True, True)
   \<and> fst (main user_home (snd (main user_home left_tray_fs))) = Inr (True, False, False)
   \<and> map_option file_content (files (snd (main user_home left_tray_fs)) (config_path user_home))
       = Some patched_once
   \<and> map_option file_content
        (files (snd (main user_home (snd (main user_home left_tray_fs)))) (config_path user_home))
       = Some patched_twice
   \<and> patched_once \<noteq> patched_twice
   \<and> map_option file_content
        (files (snd (main user_home left_tray_fs)) (config_path user_home @ str ''.bak''))
       = Some left_tray_config
   \<and> map_option file_content
        (files (snd (main user_home (snd (main user_home left_tray_fs))))
          (config_path user_home @ str ''.bak''))
       = Some patched_once"
proof -
  let ?h = user_home
  let ?c = "config_path ?h" and ?s = "style_path ?h" and ?x = "script_path ?h"
  let ?bak = "str ''.bak''"
  note d = path_distinct [of ?h] path_distinct_inside [of ?h]
  let ?f0 = "\<lparr>file_content = left_tray_config, file_mode = 420\<rparr>"
  let ?g0 = "\<lparr>file_content = str ''* { }'', file_mode = 420\<rparr>"
  \<comment> \<open>the first run\<close>
  let ?fs1 = "snd (modify_config_jsonc ?c left_tray_fs)"
  let ?fs2 = "snd (modify_style_css ?s ?fs1)"
  let ?fs3 = "snd (create_vpn_script ?x ?fs2)"
  have c0: "files left_tray_fs ?c = Some ?f0"
    using d by (simp add: left_tray_fs_def)
  have s0: "files left_tray_fs ?s = Some ?g0"
    by (simp add: left_tray_fs_def)
  have x0: "files left_tray_fs ?x = None"
    using d by (simp add: left_tray_fs_def)
  have bd0: "backup_destination left_tray_fs ?c = ?c @ ?bak \<and> \<not> isdir left_tray_fs (?c @ ?bak)"
    by (rule backup_destination_plain) (rule script_path_facts)
  have "fst (modify_config_jsonc ?c left_tray_fs) = Inr True
      \<and> files ?fs1 ?c = Some (?f0\<lparr>file_content := patched_once\<rparr>)
      \<and> files ?fs1 (backup_destination left_tray_fs ?c) = Some ?f0"
    using bd0
    by (intro modify_config_jsonc_apply [where a = False and b = False and ?c1.0 = module_inserted])
      (simp_all add: c0 checks_left_tray_config first_patch)
  then have a1: "fst (modify_config_jsonc ?c left_tray_fs) = Inr True
      \<and> files ?fs1 ?c = Some (?f0\<lparr>file_content := patched_once\<rparr>)
      \<and> files ?fs1 (?c @ ?bak) = Some ?f0"
    using bd0 by simp
  have s1: "files ?fs1 ?s = Some ?g0"
    using d s0 by (simp add: modify_config_jsonc_frame)
  have bd1: "backup_destination ?fs1 ?s = ?s @ ?bak \<and> \<not> isdir ?fs1 (?s @ ?bak)"
    using script_path_facts by (intro backup_destination_plain) (simp add: modify_config_jsonc_dirs)
  have "fst (modify_style_css ?s ?fs1) = Inr True
      \<and> files ?fs2 (backup_destination ?fs1 ?s) = Some ?g0
      \<and> files ?fs2 ?s = Some (?g0\<lparr>file_content := file_content ?g0 @ css_block\<rparr>)"
    using bd1 by (intro modify_style_css_backup) (simp_all add: s1)
  then have b1: "fst (modify_style_css ?s ?fs1) = Inr True
      \<and> files ?fs2 (?s @ ?bak) = Some ?g0
      \<and> files ?fs2 ?s = Some (?g0\<lparr>file_content := file_content ?g0 @ css_block\<rparr>)"
    using bd1 by simp
  have x2: "files ?fs2 ?x = None"
    using d x0 by (simp add: modify_config_jsonc_frame modify_style_css_frame)
  have dirs2: "dirs ?fs2 = dirs left_tray_fs"
    by (simp add: modify_config_jsonc_dirs modify_style_css_dirs)
  have c1: "fst (create_vpn_script ?x ?fs2) = Inr True
      \<and> map_option file_content (files ?fs3 ?x) = Some get_vpn_script_content"
    using script_path_facts
    by (intro create_vpn_script_new) (simp_all add: x2 dirs2)
  have nb3: "?c @ ?bak \<notin> dirs ?fs3"
    using create_vpn_script_dirs [of "?c @ ?bak" ?x ?fs2] script_path_facts
    by (auto simp: dirs2)
  have m1: "main ?h left_tray_fs = (Inr (True, True, True), ?fs3)"
    using a1 b1 c1 by (intro main_result) simp_all
  have c3: "files ?fs3 ?c = Some (?f0\<lparr>file_content := patched_once\<rparr>)"
    "files ?fs3 (?c @ ?bak) = Some ?f0"
    using d a1 by (simp_all add: create_vpn_script_frame modify_style_css_frame)
  have s3: "files ?fs3 ?s = Some (?g0\<lparr>file_content := file_content ?g0 @ css_block\<rparr>)"
    using d b1 by (simp add: create_vpn_script_frame)
  obtain k where x3: "files ?fs3 ?x = Some k" "file_content k = get_vpn_script_content"
    using c1 by auto
  \<comment> \<open>the second run\<close>
  let ?fs4 = "snd (modify_config_jsonc ?c ?fs3)"
  let ?fs5 = "snd (modify_style_css ?s ?fs4)"
  let ?fs6 = "snd (create_vpn_script ?x ?fs5)"
  have bd3: "backup_destination ?fs3 ?c = ?c @ ?bak \<and> \<not> isdir ?fs3 (?c @ ?bak)"
    using nb3 by (rule backup_destination_plain)
  have "fst (modify_config_jsonc ?c ?fs3) = Inr True
      \<and> files ?fs4 ?c = Some (?f0\<lparr>file_content := patched_once\<rparr>\<lparr>file_content := patched_twice\<rparr>)
      \<and> files ?fs4 (backup_destination ?fs3 ?c) = Some (?f0\<lparr>file_content := patched_once\<rparr>)"
    using bd3
    by (intro modify_config_jsonc_apply [where a = False and b = True and ?c1.0 = patched_twice])
      (simp_all add: c3 checks_patched_once second_patch)
  then have a2: "fst (modify_config_jsonc ?c ?fs3) = Inr True
      \<and> files ?fs4 ?c = Some (?f0\<lparr>file_content := patched_once\<rparr>\<lparr>file_content := patched_twice\<rparr>)
      \<and> files ?fs4 (?c @ ?bak) = Some (?f0\<lparr>file_content := patched_once\<rparr>)"
    using bd3 by simp
  have s4: "files ?fs4 ?s = Some (?g0\<lparr>file_content := file_content ?g0 @ css_block\<rparr>)"
    using d s3 by (simp add: modify_config_jsonc_frame)
  have b2: "modify_style_css ?s ?fs4 = (Inr False, ?fs4)"
    by (rule modify_style_css_configured [OF s4]) (simp add: css_block_def)
  have x5: "files ?fs5 ?x = Some k"
    using d x3 by (simp add: modify_config_jsonc_frame modify_style_css_frame)
  have c2: "create_vpn_script ?x ?fs5 = (Inr False, ?fs5)"
    using x5 x3 by (intro create_vpn_script_configured) simp_all
  have m2: "main ?h ?fs3 = (Inr (True, False, False), ?fs6)"
    using a2 b2 c2 by (intro main_result) simp_all
  have c6: "files ?fs6 ?c = Some (?f0\<lparr>file_content := patched_once\<rparr>\<lparr>file_content := patched_twice\<rparr>)"
    "files ?fs6 (?c @ ?bak) = Some (?f0\<lparr>file_content := patched_once\<rparr>)"
    using a2 b2 c2 by simp_all
  show ?thesis
    using c3 c6 patched_differ by (simp add: m1 m2)
qed

end
